theory Spec2Isabelle
  imports Main
begin

section \<open>Python text primitives used by \<open>devassistant/lang.py\<close>\<close>

text \<open>
  Text is Python 3 \<open>str\<close>, modelled as \<^typ>\<open>string\<close> with one \<^typ>\<open>char\<close> per code
  point (code points below 256).  \<open>is_space\<close> is \<open>str.isspace\<close> on that range; it is the
  class that \<open>str.strip()\<close>, \<open>str.split()\<close> and the pattern \<open>\s\<close> of \<open>re\<close> share.
\<close>

definition is_space :: "char \<Rightarrow> bool" where
  "is_space c \<longleftrightarrow>
     c \<in> set [CHR 0x09, CHR 0x0A, CHR 0x0B, CHR 0x0C, CHR 0x0D,
              CHR 0x1C, CHR 0x1D, CHR 0x1E, CHR 0x1F, CHR 0x20, CHR 0x85, CHR 0xA0]"

text \<open>The characters of \<open>'"\''\<close> and of \<open>'{}'\<close>, the two arguments of \<open>strip\<close> in the source.\<close>

definition quote_chars :: string where
  "quote_chars = [CHR 0x22, CHR 0x27]"

definition brace_chars :: string where
  "brace_chars = ''{}''"

text \<open>\<open>s.strip()\<close> and \<open>s.strip(chars)\<close>: every leading and every trailing character of
  the class is removed.\<close>

definition strip_by :: "(char \<Rightarrow> bool) \<Rightarrow> string \<Rightarrow> string" where
  "strip_by P s = rev (dropWhile P (rev (dropWhile P s)))"

definition strip :: "string \<Rightarrow> string" where
  "strip s = strip_by is_space s"

definition strip_chars :: "string \<Rightarrow> string \<Rightarrow> string" where
  "strip_chars chars s = strip_by (\<lambda>c. c \<in> set chars) s"

text \<open>\<open>s.startswith(p)\<close>.\<close>

definition startswith :: "string \<Rightarrow> string \<Rightarrow> bool" where
  "startswith s p \<longleftrightarrow> take (length p) s = p"

section \<open>Errors\<close>

text \<open>
  \<open>YamlSyntaxError\<close> is the SyntaxError-kind error of \<open>devassistant.exceptions\<close>; the
  others are the Python built-in exceptions that the code of \<open>lang.py\<close> can raise by
  itself.  Each carries its message.
\<close>

datatype error =
    YamlSyntaxError string
  | AttributeError string
  | NameError string
  | ValueError string

section \<open>Variable Naming: \<open>get_var_name\<close>\<close>

definition get_var_name :: "string \<Rightarrow> error + string" where
  "get_var_name dolar_variable =
     (let name = strip dolar_variable;
          name = strip_chars quote_chars name
      in if \<not> startswith name ''$''
         then Inl (YamlSyntaxError (''Not a proper variable name: '' @ dolar_variable))
         else Inr (strip_chars brace_chars (drop 1 name)))"

section \<open>Values and the variable environment\<close>

text \<open>
  The values a variable can be bound to, and that an expression can evaluate to: text, or
  an arbitrary structure.  A mapping is kept as the list of its items in iteration order.
\<close>

datatype pyval =
    VNone
  | VBool bool
  | VInt int
  | VStr string
  | VList "pyval list"
  | VDict "(pyval \<times> pyval) list"

text \<open>Python's truth value of an object (\<open>if x\<close>).\<close>

fun truthy :: "pyval \<Rightarrow> bool" where
  "truthy VNone = False"
| "truthy (VBool b) = b"
| "truthy (VInt i) = (i \<noteq> 0)"
| "truthy (VStr s) = (s \<noteq> [])"
| "truthy (VList xs) = (xs \<noteq> [])"
| "truthy (VDict kvs) = (kvs \<noteq> [])"

text \<open>\<open>str(type(x))\<close>, as \<open>'{t}'.format(t=type(x))\<close> prints it.\<close>

fun type_repr :: "pyval \<Rightarrow> string" where
  "type_repr VNone = ''<class 'NoneType'>''"
| "type_repr (VBool b) = ''<class 'bool'>''"
| "type_repr (VInt i) = ''<class 'int'>''"
| "type_repr (VStr s) = ''<class 'str'>''"
| "type_repr (VList xs) = ''<class 'list'>''"
| "type_repr (VDict kvs) = ''<class 'dict'>''"

text \<open>\<open>kwargs\<close>: the variable environment, a dictionary from names to values.\<close>

type_synonym env = "string \<rightharpoonup> pyval"

section \<open>The command-execution collaborator\<close>

text \<open>
  Modelled from the spec: \<open>devassistant.command.Command('cl_n', command_line, kwargs).run()\<close>
  is not part of \<open>lang.py\<close>.  It is a parameter of the model: given the command line, the
  environment and the state \<open>'w\<close> of the outside world, it either returns the output
  (\<open>Inr\<close>) or raises \<open>exceptions.RunException\<close> carrying the output (\<open>Inl\<close>), and leaves
  a new state of the world.  It reads the environment and does not rebind variables.
\<close>

type_synonym 'w runner = "string \<Rightarrow> env \<Rightarrow> 'w \<Rightarrow> (pyval + pyval) \<times> 'w"

section \<open>Expression Evaluator: \<open>evaluate\<close>\<close>

text \<open>
  The result is the raised error or the pair (logical result, result), together with the
  state of the world after the call.  \<open>expr[2:-1]\<close> is \<open>drop 2 (butlast expr)\<close>, and
  \<open>kwargs.get(varname, '')\<close> is the lookup with the empty text as default.
\<close>

definition evaluate ::
  "'w runner \<Rightarrow> pyval \<Rightarrow> env \<Rightarrow> 'w \<Rightarrow> (error + bool \<times> pyval) \<times> 'w" where
  "evaluate run expression kwargs w =
     (case expression of
        VStr s \<Rightarrow>
          (let expr = strip s;
               invert_success = startswith expr ''not '';
               expr = (if invert_success then drop 4 expr else expr);
               ret = (\<lambda>success output.
                        Inr (if \<not> invert_success then success else \<not> success, output))
           in if startswith expr ''$('' then
                (case run (drop 2 (butlast expr)) kwargs w of
                   (Inr output, w') \<Rightarrow> (ret True output, w')
                 | (Inl output, w') \<Rightarrow> (ret False output, w'))
              else if startswith expr ''$'' \<or> startswith expr [CHR 0x22, CHR ''$''] then
                (case get_var_name expr of
                   Inl e \<Rightarrow> (Inl e, w)
                 | Inr var_name \<Rightarrow>
                     (case kwargs var_name of
                        Some v \<Rightarrow> if truthy v then (ret True v, w) else (ret False (VStr []), w)
                      | None \<Rightarrow> (ret False (VStr []), w)))
              else if startswith expr ''defined '' then
                (case get_var_name (drop 8 expr) of
                   Inl e \<Rightarrow> (Inl e, w)
                 | Inr varname \<Rightarrow>
                     (ret (varname \<in> dom kwargs)
                          (case kwargs varname of Some v \<Rightarrow> v | None \<Rightarrow> VStr []), w))
              else (Inl (YamlSyntaxError (''Not a valid expression: '' @ s)), w))
      | _ \<Rightarrow> (Inr (truthy expression, expression), w))"

section \<open>Condition Resolver: \<open>get_section_from_condition\<close>\<close>

text \<open>
  A section is the pair of its header text and its body; \<open>else_section\<close> is \<open>None\<close> when
  there is no next section.  The third component of the result is the chosen body, or
  \<open>None\<close>.
\<close>

definition get_section_from_condition ::
  "'w runner \<Rightarrow> string \<times> 'b \<Rightarrow> (string \<times> 'b) option \<Rightarrow> env \<Rightarrow> 'w
     \<Rightarrow> (error + nat \<times> bool \<times> 'b option) \<times> 'w" where
  "get_section_from_condition run if_section else_section kwargs w =
     (let skip = (case else_section of None \<Rightarrow> False | Some es \<Rightarrow> fst es = ''else'')
      in case evaluate run (VStr (strip (drop 2 (fst if_section)))) kwargs w of
           (Inl e, w') \<Rightarrow> (Inl e, w')
         | (Inr (logical, _), w') \<Rightarrow>
             if logical then (Inr (0, skip, Some (snd if_section)), w')
             else if skip then (Inr (1, skip, map_option snd else_section), w')
             else (Inr (1, skip, None), w'))"

section \<open>The pattern of the for-loop header\<close>

text \<open>
  The fragment of Python's \<open>re\<close> that the pattern of \<open>parse_for\<close> uses: character
  classes (a literal character, \<open>\s\<close>, \<open>\S\<close>, and \<open>.\<close>, which is every character but the
  line feed), concatenation, the greedy \<open>?\<close>, the greedy \<open>*\<close> and \<open>+\<close> of a class, and
  numbered capturing groups.
\<close>

datatype cclass = Chr char | Space | NonSpace | AnyChar

datatype regex =
    Eps
  | Atom cclass
  | Seq regex regex
  | Opt regex
  | Star cclass
  | Plus cclass
  | Group nat regex

fun in_class :: "cclass \<Rightarrow> char \<Rightarrow> bool" where
  "in_class (Chr a) c = (c = a)"
| "in_class Space c = is_space c"
| "in_class NonSpace c = (\<not> is_space c)"
| "in_class AnyChar c = (c \<noteq> CHR 0x0A)"

text \<open>
  The matcher of \<open>re\<close> backtracks: at each choice it takes the first alternative and
  comes back to the next one when the rest of the pattern fails.  \<open>matches r (g, s)\<close> lists,
  in that order of preference, every way \<open>r\<close> can match a prefix of \<open>s\<close>: the groups
  captured so far and the text left.  A greedy repetition prefers the longer match.
\<close>

fun star_cc :: "cclass \<Rightarrow> string \<Rightarrow> string list" where
  "star_cc k [] = [[]]"
| "star_cc k (c # cs) = (if in_class k c then star_cc k cs @ [c # cs] else [c # cs])"

fun plus_cc :: "cclass \<Rightarrow> string \<Rightarrow> string list" where
  "plus_cc k [] = []"
| "plus_cc k (c # cs) = (if in_class k c then star_cc k cs else [])"

type_synonym captures = "nat \<Rightarrow> string option"

fun matches :: "regex \<Rightarrow> captures \<times> string \<Rightarrow> (captures \<times> string) list" where
  "matches Eps st = [st]"
| "matches (Atom k) (g, s) =
     (case s of [] \<Rightarrow> [] | c # cs \<Rightarrow> if in_class k c then [(g, cs)] else [])"
| "matches (Seq a b) st = concat (map (matches b) (matches a st))"
| "matches (Opt a) st = matches a st @ [st]"
| "matches (Star k) (g, s) = map (Pair g) (star_cc k s)"
| "matches (Plus k) (g, s) = map (Pair g) (plus_cc k s)"
| "matches (Group n a) (g, s) =
     map (\<lambda>(g', s'). (g'(n := Some (take (length s - length s') s)), s')) (matches a (g, s))"

text \<open>
  \<open>regex.match(s)\<close> is the preferred match at the start of \<open>s\<close> (the end of \<open>s\<close> need not
  be reached), or \<open>None\<close>; \<open>groups n\<close> is \<open>.groups()\<close> of a match of a pattern with \<open>n\<close>
  groups: the text of each group, \<open>None\<close> for a group that took no part.
\<close>

definition re_match :: "regex \<Rightarrow> string \<Rightarrow> captures option" where
  "re_match r s = (case matches r (\<lambda>_. None, s) of [] \<Rightarrow> None | (g, _) # _ \<Rightarrow> Some g)"

definition groups :: "nat \<Rightarrow> captures \<Rightarrow> string option list" where
  "groups n g = map g [1..<Suc n]"

text \<open>A literal word, and the concatenation of a list of patterns.\<close>

definition lit :: "string \<Rightarrow> regex" where
  "lit s = foldr (\<lambda>c r. Seq (Atom (Chr c)) r) s Eps"

definition seqs :: "regex list \<Rightarrow> regex" where
  "seqs rs = foldr Seq rs Eps"

text \<open>\<open>\${?\S}?\<close>, the pattern of one control variable, as group \<open>n\<close>.\<close>

definition var_token :: "nat \<Rightarrow> regex" where
  "var_token n =
     Group n (seqs [Atom (Chr CHR ''$''), Opt (Atom (Chr CHR ''{'')), Atom NonSpace,
                    Opt (Atom (Chr CHR ''}''))])"

text \<open>\<open>for\s+(\${?\S}?)(?:\s*,\s+(\${?\S}?))?\s+in\s+(\S.+)\<close>\<close>

definition for_regex :: regex where
  "for_regex =
     seqs [lit ''for'', Plus Space, var_token 1,
           Opt (seqs [Star Space, Atom (Chr CHR '',''), Plus Space, var_token 2]),
           Plus Space, lit ''in'', Plus Space,
           Group 3 (seqs [Atom NonSpace, Plus AnyChar])]"

section \<open>Loop Header Parser: \<open>parse_for\<close>\<close>

text \<open>
  \<open>regex.match(control_line)\<close> is \<open>None\<close> when the header does not match, and
  \<open>None.groups()\<close> raises \<open>AttributeError\<close>.  \<open>not res\<close> holds of the empty tuple only.
  Groups 1 and 3 take part in every match; \<open>None.strip()\<close> would raise \<open>AttributeError\<close>.
  \<open>if res[1]\<close> holds of a group that took part and is not empty.
\<close>

definition parse_for :: "string \<Rightarrow> error + string list \<times> string" where
  "parse_for control_line =
     (let error = ''For loop call must be in form 'for $var in expression', got: ''
                    @ control_line
      in case re_match for_regex control_line of
           None \<Rightarrow> Inl (AttributeError ''NoneType object has no attribute groups'')
         | Some m \<Rightarrow>
             (let res = groups 3 m
              in if res = [] then Inl (YamlSyntaxError error)
                 else case (res ! 0, res ! 2) of
                        (Some r0, Some expr) \<Rightarrow>
                          (case get_var_name r0 of
                             Inl e \<Rightarrow> Inl e
                           | Inr v0 \<Rightarrow>
                               (case res ! 1 of
                                  None \<Rightarrow> Inr ([v0], expr)
                                | Some r1 \<Rightarrow>
                                    if r1 = [] then Inr ([v0], expr)
                                    else (case get_var_name r1 of
                                            Inl e \<Rightarrow> Inl e
                                          | Inr v1 \<Rightarrow> Inr ([v0, v1], expr))))
                      | _ \<Rightarrow> Inl (AttributeError
                                    ''NoneType object has no attribute strip'')))"

section \<open>Loop Iterable Resolver: \<open>get_for_control_var_and_eval_expr\<close>\<close>

text \<open>\<open>s.split()\<close>: the maximal runs of characters that are not whitespace, in order.
  The first argument is the token read so far.\<close>

fun split_from :: "string \<Rightarrow> string \<Rightarrow> string list" where
  "split_from tok [] = (if tok = [] then [] else [tok])"
| "split_from tok (c # cs) =
     (if is_space c then (if tok = [] then [] else [tok]) @ split_from [] cs
      else split_from (tok @ [c]) cs)"

definition split_ws :: "string \<Rightarrow> string list" where
  "split_ws s = split_from [] s"

text \<open>An item of the iterable: a token of a split text, or a (key, value) pair of
  \<open>dict.items()\<close>.\<close>

datatype iter_item = Token string | KeyVal pyval pyval

text \<open>
  The module never binds the name \<open>logger\<close> (it imports \<open>re\<close>, \<open>sys\<close>, \<open>command\<close> and
  \<open>exceptions\<close> only), so each \<open>except exceptions.YamlSyntaxError\<close> handler raises
  \<open>NameError\<close> at its first statement, before its \<open>raise e\<close>.  Every other error passes
  the handlers.
\<close>

definition get_for_control_var_and_eval_expr ::
  "'w runner \<Rightarrow> string \<Rightarrow> env \<Rightarrow> 'w \<Rightarrow> (error + string list \<times> iter_item list) \<times> 'w" where
  "get_for_control_var_and_eval_expr run comm_type kwargs w =
     (case parse_for comm_type of
        Inl (YamlSyntaxError m) \<Rightarrow> (Inl (NameError ''name 'logger' is not defined''), w)
      | Inl e \<Rightarrow> (Inl e, w)
      | Inr (control_vars, expression) \<Rightarrow>
          (case evaluate run (VStr expression) kwargs w of
             (Inl (YamlSyntaxError m), w') \<Rightarrow>
               (Inl (NameError ''name 'logger' is not defined''), w')
           | (Inl e, w') \<Rightarrow> (Inl e, w')
           | (Inr (_, eval_expression), w') \<Rightarrow>
               if length control_vars = 2 then
                 (case eval_expression of
                    VDict kvs \<Rightarrow> (Inr (control_vars, map (\<lambda>(k, v). KeyVal k v) kvs), w')
                  | _ \<Rightarrow>
                      (Inl (YamlSyntaxError (''Can't expand '' @ type_repr eval_expression
                                               @ '' to two control variables.'')), w'))
               else
                 (case eval_expression of
                    VStr s \<Rightarrow> (Inr (control_vars, map Token (split_ws s)), w')
                  | _ \<Rightarrow> (Inr (control_vars, []), w'))))"

section \<open>Assignment Executor: \<open>assign_variable\<close>\<close>

text \<open>\<open>s.split(',')\<close>: the pieces between the separators; one more piece than there are
  separators.  The first argument is the piece read so far.\<close>

fun split_on_from :: "char \<Rightarrow> string \<Rightarrow> string \<Rightarrow> string list" where
  "split_on_from sep piece [] = [piece]"
| "split_on_from sep piece (c # cs) =
     (if c = sep then piece # split_on_from sep [] cs
      else split_on_from sep (piece @ [c]) cs)"

definition split_on :: "char \<Rightarrow> string \<Rightarrow> string list" where
  "split_on sep s = split_on_from sep [] s"

text \<open>
  The function returns nothing and rebinds variables of \<open>kwargs\<close> in place: the result is
  the raised error or \<open>()\<close>, the environment after the call and the state of the world
  after the call.  \<open>var1, var2 = map(...)\<close> applies \<open>get_var_name\<close> to the pieces in
  order and needs exactly two of them.
\<close>

definition assign_variable ::
  "'w runner \<Rightarrow> string \<Rightarrow> pyval \<Rightarrow> env \<Rightarrow> 'w \<Rightarrow> (error + unit) \<times> env \<times> 'w" where
  "assign_variable run variable comm kwargs w =
     (let comma_count = count_list variable CHR '',''
      in if comma_count > 1
         then (Inl (YamlSyntaxError ''Max two variables allowed on left side.''), kwargs, w)
         else
           (case evaluate run comm kwargs w of
              (Inl e, w') \<Rightarrow> (Inl e, kwargs, w')
            | (Inr (res1, res2), w') \<Rightarrow>
                if comma_count = 1 then
                  (case map get_var_name (split_on CHR '','' variable) of
                     [Inr var1, Inr var2] \<Rightarrow>
                       (Inr (), kwargs(var1 \<mapsto> VBool res1, var2 \<mapsto> res2), w')
                   | [Inl e, _] \<Rightarrow> (Inl e, kwargs, w')
                   | [Inr var1, Inl e] \<Rightarrow> (Inl e, kwargs, w')
                   | _ \<Rightarrow> (Inl (ValueError ''wrong number of values to unpack''), kwargs, w'))
                else
                  (case get_var_name variable of
                     Inl e \<Rightarrow> (Inl e, kwargs, w')
                   | Inr var2 \<Rightarrow> (Inr (), kwargs(var2 \<mapsto> res2), w'))))"

text \<open>A collaborator for the concrete examples: every command succeeds and prints its own
  command line; the world has no state.\<close>

definition echo_runner :: "unit runner" where
  "echo_runner command_line kwargs w = (Inr (VStr command_line), w)"

section \<open>Shapes of names used in the statements\<close>

text \<open>
  A bare identifier: a name that carries no layer that \<open>get_var_name\<close> would remove.  It
  is empty, or it neither begins with a brace nor ends with whitespace, a quote or a
  brace.
\<close>

definition bare_ident :: "string \<Rightarrow> bool" where
  "bare_ident v \<longleftrightarrow>
     v = [] \<or> (hd v \<notin> set brace_chars \<and> \<not> is_space (last v)
               \<and> last v \<notin> set quote_chars \<and> last v \<notin> set brace_chars)"

text \<open>A bare name for the form \<open>$name\<close> of an expression: a bare identifier that does
  not begin with \<open>(\<close>, which would make \<open>$(\<close>, the command form.\<close>

definition bare_name :: "string \<Rightarrow> bool" where
  "bare_name n \<longleftrightarrow> bare_ident n \<and> (n = [] \<or> hd n \<noteq> CHR ''('')"

text \<open>A target name of an assignment: a bare name that holds no comma, the separator of
  the target list.\<close>

definition target_name :: "string \<Rightarrow> bool" where
  "target_name n \<longleftrightarrow> bare_name n \<and> CHR '','' \<notin> set n"

section \<open>Shapes of headers used in the statements\<close>

text \<open>The preferred match of a pattern, the head of the list of its matches.\<close>

definition first_match :: "regex \<Rightarrow> captures \<times> string \<Rightarrow> (captures \<times> string) option" where
  "first_match r st = (case matches r st of [] \<Rightarrow> None | x # _ \<Rightarrow> Some x)"

text \<open>
  The parts of a well-formed header: a non-empty run of whitespace; a character of an
  identifier, which is no whitespace, quote or brace; the two ways of writing the control
  variable \<open>c\<close>, \<open>$c\<close> and \<open>${c}\<close>; and an expression text, which has two characters at
  least, begins with a character that is no whitespace, and holds no line feed.
\<close>

definition blank :: "string \<Rightarrow> bool" where
  "blank ws \<longleftrightarrow> ws \<noteq> [] \<and> (\<forall>c \<in> set ws. is_space c)"

definition ident_char :: "char \<Rightarrow> bool" where
  "ident_char c \<longleftrightarrow> \<not> is_space c \<and> c \<notin> set quote_chars \<and> c \<notin> set brace_chars"

definition var_forms :: "char \<Rightarrow> string list" where
  "var_forms c = [''$'' @ [c], ''${'' @ [c] @ ''}'']"

definition expr_text :: "string \<Rightarrow> bool" where
  "expr_text e \<longleftrightarrow> 2 \<le> length e \<and> \<not> is_space (hd e) \<and> CHR 0x0A \<notin> set e"

section \<open>Stripping\<close>

lemma dropWhile_all: "\<forall>c \<in> set a. P c \<Longrightarrow> dropWhile P (a @ r) = dropWhile P r"
  by (induction a) simp_all

lemma dropWhile_stop: "r = [] \<or> \<not> P (hd r) \<Longrightarrow> dropWhile P r = r"
  by (cases r) simp_all

lemma strip_by_sandwich:
  assumes a: "\<forall>c \<in> set a. P c" and b: "\<forall>c \<in> set b. P c"
    and m: "m = [] \<or> (\<not> P (hd m) \<and> \<not> P (last m))"
  shows "strip_by P (a @ m @ b) = m"
proof -
  have 1: "dropWhile P (a @ m @ b) = dropWhile P (m @ b)"
    using a by (rule dropWhile_all)
  show ?thesis
  proof (cases "m = []")
    case True
    have "dropWhile P (a @ m @ b) = []" using a b True by simp
    then have "strip_by P (a @ m @ b) = rev (dropWhile P (rev []))"
      by (simp only: strip_by_def)
    then show ?thesis using True by simp
  next
    case False
    with m have h: "\<not> P (hd m)" and l: "\<not> P (last m)" by auto
    from False h have 2: "dropWhile P (m @ b) = m @ b"
      by (cases m) simp_all
    have "\<forall>c \<in> set (rev b). P c" using b by simp
    then have "dropWhile P (rev b @ rev m) = dropWhile P (rev m)"
      by (rule dropWhile_all)
    moreover have "dropWhile P (rev m) = rev m"
      using False l by (intro dropWhile_stop) (simp add: hd_rev)
    ultimately show ?thesis using 1 2 by (simp add: strip_by_def)
  qed
qed

lemma strip_by_keeps_head:
  assumes "\<not> P c"
  shows "\<exists>r'. strip_by P (c # r) = c # r'"
proof -
  have "\<exists>y. dropWhile P (rev r @ [c]) = y @ [c]"
    using assms by (simp add: dropWhile_append)
  then obtain y where "dropWhile P (rev (c # r)) = y @ [c]" by auto
  then show ?thesis using assms by (simp add: strip_by_def)
qed

lemma strip_by_cases:
  "(dropWhile P s = [] \<and> strip_by P s = []) \<or>
   (\<exists>c r r'. dropWhile P s = c # r \<and> \<not> P c \<and> strip_by P s = c # r')"
proof (cases "dropWhile P s")
  case Nil
  have "strip_by P s = rev (dropWhile P (rev (dropWhile P s)))"
    by (simp only: strip_by_def)
  also have "\<dots> = []" by (simp only: Nil rev.simps dropWhile.simps)
  finally show ?thesis using Nil by blast
next
  case (Cons c r)
  then have np: "\<not> P c" by (metis hd_dropWhile list.sel(1) list.distinct(1))
  have "strip_by P s = strip_by P (c # r)"
    using Cons np by (simp add: strip_by_def)
  moreover from np have "\<exists>r'. strip_by P (c # r) = c # r'"
    by (rule strip_by_keeps_head)
  ultimately show ?thesis using Cons np by auto
qed


lemma quote_not_space: "c \<in> set quote_chars \<Longrightarrow> \<not> is_space c"
  by (auto simp: quote_chars_def is_space_def)

lemma brace_not_space: "c \<in> set brace_chars \<Longrightarrow> \<not> is_space c"
  by (auto simp: brace_chars_def is_space_def)

lemma dollar_not_space: "\<not> is_space CHR ''$''"
  by (simp add: is_space_def)

lemma last_core:
  "b1 @ v @ b2 \<noteq> [] \<Longrightarrow>
     last (b1 @ v @ b2) \<in> set b1 \<union> set b2 \<or> (v \<noteq> [] \<and> last (b1 @ v @ b2) = last v)"
  by (auto simp: last_append)

lemma brace_not_quote: "c \<in> set brace_chars \<Longrightarrow> c \<notin> set quote_chars"
  by (auto simp: quote_chars_def brace_chars_def)

section \<open>Properties of Variable Naming\<close>

lemma get_var_name_layers:
  assumes ws: "\<forall>c \<in> set ws1. is_space c" "\<forall>c \<in> set ws2. is_space c"
    and q: "set q1 \<subseteq> set quote_chars" "set q2 \<subseteq> set quote_chars"
    and b: "set b1 \<subseteq> set brace_chars" "set b2 \<subseteq> set brace_chars"
    and v: "bare_ident v"
  shows "get_var_name (ws1 @ q1 @ ''$'' @ b1 @ v @ b2 @ q2 @ ws2) = Inr v"
proof -
  let ?core = "b1 @ v @ b2"
  let ?dol = "''$'' @ ?core"
  let ?quoted = "q1 @ ?dol @ q2"
  have lastcore: "\<not> is_space (last ?core) \<and> last ?core \<notin> set quote_chars" if "?core \<noteq> []"
  proof -
    from last_core[OF that]
    consider "last ?core \<in> set brace_chars" | "v \<noteq> []" "last ?core = last v"
      using b by blast
    then show ?thesis
    proof cases
      case 1
      then show ?thesis using brace_not_space brace_not_quote by blast
    next
      case 2
      then show ?thesis using v by (simp only: bare_ident_def) blast
    qed
  qed
  have lastdol: "\<not> is_space (last ?dol) \<and> last ?dol \<notin> set quote_chars"
  proof (cases "?core = []")
    case True
    then show ?thesis by (simp add: quote_chars_def is_space_def)
  next
    case False
    then have "last ?dol = last ?core" by (simp only: last_append if_False)
    with lastcore[OF False] show ?thesis by metis
  qed
  have 1: "strip (ws1 @ ?quoted @ ws2) = ?quoted"
    unfolding strip_def
  proof (rule strip_by_sandwich[OF ws])
    have "\<not> is_space (hd ?quoted)"
      using q by (cases q1) (auto dest: quote_not_space simp: dollar_not_space)
    moreover have "\<not> is_space (last ?quoted)"
    proof (cases "q2 = []")
      case True
      then show ?thesis using lastdol by simp
    next
      case False
      then have "last ?quoted \<in> set quote_chars" using q by (auto simp: last_append)
      then show ?thesis by (rule quote_not_space)
    qed
    ultimately show "?quoted = [] \<or> \<not> is_space (hd ?quoted) \<and> \<not> is_space (last ?quoted)" by blast
  qed
  have 2: "strip_chars quote_chars ?quoted = ?dol"
    unfolding strip_chars_def
  proof (rule strip_by_sandwich)
    show "\<forall>c\<in>set q1. c \<in> set quote_chars" "\<forall>c\<in>set q2. c \<in> set quote_chars" using q by auto
    have "hd ?dol \<notin> set quote_chars" by (simp add: quote_chars_def)
    then show "?dol = [] \<or> hd ?dol \<notin> set quote_chars \<and> last ?dol \<notin> set quote_chars"
      using lastdol by blast
  qed
  have 3: "strip_chars brace_chars (b1 @ v @ b2) = v"
    unfolding strip_chars_def
    by (rule strip_by_sandwich) (use b v in \<open>auto simp: bare_ident_def\<close>)
  have "get_var_name (ws1 @ ?quoted @ ws2) = Inr v"
    unfolding get_var_name_def Let_def 1 2 using 3 by (simp add: startswith_def)
  then show ?thesis by simp
qed

lemma get_var_name_error:
  "get_var_name t = Inl e \<Longrightarrow> e = YamlSyntaxError (''Not a proper variable name: '' @ t)"
  by (auto simp: get_var_name_def Let_def split: if_splits)

lemma startswith_strip_by:
  "startswith (strip_by P s) [d] \<longleftrightarrow> startswith (dropWhile P s) [d]"
proof -
  consider (e) "dropWhile P s = []" "strip_by P s = []"
    | (c) c r r' where "dropWhile P s = c # r" "strip_by P s = c # r'"
    using strip_by_cases[of P s] by blast
  then show ?thesis
  proof cases
    case e
    show ?thesis unfolding e by simp
  next
    case c
    show ?thesis unfolding c by (simp add: startswith_def)
  qed
qed

lemma rstrip_decomp:
  "\<exists>wsp. (\<forall>c \<in> set wsp. P c) \<and> x = rev (dropWhile P (rev x)) @ wsp"
proof -
  have "rev x = takeWhile P (rev x) @ dropWhile P (rev x)" by simp
  then have "x = rev (dropWhile P (rev x)) @ rev (takeWhile P (rev x))"
    by (metis rev_append rev_rev_ident)
  moreover have "\<forall>c \<in> set (rev (takeWhile P (rev x))). P c"
    by (auto dest: set_takeWhileD)
  ultimately show ?thesis by blast
qed

lemma startswith_dropWhile_quotes_ws:
  assumes "\<forall>c \<in> set wsp. is_space c"
  shows "startswith (dropWhile (\<lambda>c. c \<in> set quote_chars) (y @ wsp)) ''$''
           \<longleftrightarrow> startswith (dropWhile (\<lambda>c. c \<in> set quote_chars) y) ''$''"
proof (induction y)
  case Nil
  have "\<not> startswith (dropWhile (\<lambda>c. c \<in> set quote_chars) wsp) ''$''"
  proof (cases wsp)
    case Nil
    then show ?thesis by (simp add: startswith_def)
  next
    case (Cons a list)
    then have "is_space a" using assms by simp
    then have "a \<notin> set quote_chars" "a \<noteq> CHR ''$''"
      using quote_not_space dollar_not_space by blast+
    then show ?thesis using Cons by (simp add: startswith_def)
  qed
  then show ?case by (simp add: startswith_def)
next
  case (Cons a y)
  then show ?case by (simp add: startswith_def)
qed

lemma get_var_name_succeeds_iff:
  "(\<exists>n. get_var_name t = Inr n) \<longleftrightarrow>
     startswith (dropWhile (\<lambda>c. c \<in> set quote_chars) (dropWhile is_space t)) ''$''"
proof -
  let ?Q = "\<lambda>c. c \<in> set quote_chars"
  have "(\<exists>n. get_var_name t = Inr n) \<longleftrightarrow> startswith (strip_by ?Q (strip_by is_space t)) ''$''"
    by (auto simp: get_var_name_def Let_def strip_def strip_chars_def)
  also have "\<dots> \<longleftrightarrow> startswith (dropWhile ?Q (strip_by is_space t)) ''$''"
    by (rule startswith_strip_by)
  also have "\<dots> \<longleftrightarrow> startswith (dropWhile ?Q (dropWhile is_space t)) ''$''"
  proof -
    obtain wsp where w: "\<forall>c \<in> set wsp. is_space c"
      and d: "dropWhile is_space t = strip_by is_space t @ wsp"
      using rstrip_decomp[of is_space "dropWhile is_space t"] unfolding strip_by_def by blast
    show ?thesis unfolding d using w by (rule startswith_dropWhile_quotes_ws[symmetric])
  qed
  finally show ?thesis .
qed


lemma strip_by_decomp:
  "\<exists>a b. s = a @ strip_by P s @ b \<and> (\<forall>c \<in> set a. P c) \<and> (\<forall>c \<in> set b. P c)"
proof -
  obtain wsp where w: "\<forall>c \<in> set wsp. P c"
    and d: "dropWhile P s = strip_by P s @ wsp"
    using rstrip_decomp [of P "dropWhile P s"] unfolding strip_by_def by blast
  have "s = takeWhile P s @ dropWhile P s" by simp
  then have "s = takeWhile P s @ strip_by P s @ wsp" using d by simp
  moreover have "\<forall>c \<in> set (takeWhile P s). P c" by (auto dest: set_takeWhileD)
  ultimately show ?thesis using w by blast
qed

lemma strip_by_ends:
  "strip_by P s = [] \<or> (\<not> P (hd (strip_by P s)) \<and> \<not> P (last (strip_by P s)))"
proof (cases "strip_by P s = []")
  case True
  then show ?thesis by simp
next
  case False
  then have h: "\<not> P (hd (strip_by P s))"
    using strip_by_cases [of P s] by auto
  let ?r = "dropWhile P (rev (dropWhile P s))"
  from False have ne: "?r \<noteq> []" by (simp add: strip_by_def)
  then have "\<not> P (hd ?r)" by (rule hd_dropWhile)
  moreover have "last (strip_by P s) = hd ?r"
    using ne by (simp add: strip_by_def last_rev)
  ultimately show ?thesis using h by simp
qed


lemma last_in_class: "xs \<noteq> [] \<Longrightarrow> set xs \<subseteq> A \<Longrightarrow> last xs \<in> A"
  using last_in_set by blast

lemma get_var_name_shape:
  assumes ws: "\<forall>c \<in> set ws1. is_space c" "\<forall>c \<in> set ws2. is_space c"
    and q: "set q1 \<subseteq> set quote_chars" "set q2 \<subseteq> set quote_chars"
    and b: "set b1 \<subseteq> set brace_chars" "set b2 \<subseteq> set brace_chars"
    and n: "n = [] \<or> (hd n \<notin> set brace_chars \<and> last n \<notin> set brace_chars)"
    and nq: "b2 = [] \<and> n \<noteq> [] \<longrightarrow> last n \<notin> set quote_chars"
    and ns: "b2 = [] \<and> q2 = [] \<and> n \<noteq> [] \<longrightarrow> \<not> is_space (last n)"
  shows "get_var_name (ws1 @ q1 @ ''$'' @ b1 @ n @ b2 @ q2 @ ws2) = Inr n"
proof -
  let ?dol = "''$'' @ b1 @ n @ b2"
  let ?quoted = "q1 @ ?dol @ q2"
  have lastdol: "last ?dol \<notin> set quote_chars \<and> (q2 = [] \<longrightarrow> \<not> is_space (last ?dol))"
  proof (cases "b2 = []")
    case False
    then have "last ?dol = last b2" by simp
    moreover have "last b2 \<in> set brace_chars" using False b(2) by (rule last_in_class)
    ultimately show ?thesis using brace_not_quote brace_not_space by metis
  next
    case b2: True
    show ?thesis
    proof (cases "n = []")
      case False
      then have "last ?dol = last n" using b2 by simp
      then show ?thesis using nq ns b2 False by metis
    next
      case n0: True
      show ?thesis
      proof (cases "b1 = []")
        case True
        then show ?thesis using b2 n0 by (simp add: quote_chars_def is_space_def)
      next
        case False
        then have "last ?dol = last b1" using b2 n0 by simp
        moreover have "last b1 \<in> set brace_chars" using False b(1) by (rule last_in_class)
        ultimately show ?thesis using brace_not_quote brace_not_space by metis
      qed
    qed
  qed
  have 1: "strip (ws1 @ ?quoted @ ws2) = ?quoted"
    unfolding strip_def
  proof (rule strip_by_sandwich[OF ws])
    have "\<not> is_space (hd ?quoted)"
      using q by (cases q1) (auto dest: quote_not_space simp: dollar_not_space)
    moreover have "\<not> is_space (last ?quoted)"
    proof (cases "q2 = []")
      case True
      then show ?thesis using lastdol by simp
    next
      case False
      then have "last ?quoted \<in> set quote_chars" using q by (auto simp: last_append)
      then show ?thesis by (rule quote_not_space)
    qed
    ultimately show "?quoted = [] \<or> \<not> is_space (hd ?quoted) \<and> \<not> is_space (last ?quoted)" by blast
  qed
  have 2: "strip_chars quote_chars ?quoted = ?dol"
    unfolding strip_chars_def
  proof (rule strip_by_sandwich)
    show "\<forall>c\<in>set q1. c \<in> set quote_chars" "\<forall>c\<in>set q2. c \<in> set quote_chars" using q by auto
    have "hd ?dol \<notin> set quote_chars" by (simp add: quote_chars_def)
    then show "?dol = [] \<or> hd ?dol \<notin> set quote_chars \<and> last ?dol \<notin> set quote_chars"
      using lastdol by blast
  qed
  have 3: "strip_chars brace_chars (b1 @ n @ b2) = n"
    unfolding strip_chars_def
    by (rule strip_by_sandwich) (use b n in auto)
  have "get_var_name (ws1 @ ?quoted @ ws2) = Inr n"
    unfolding get_var_name_def Let_def 1 2 using 3 by (simp add: startswith_def)
  then show ?thesis by simp
qed

lemma get_var_name_shape_exists:
  assumes "get_var_name t = Inr n"
  shows "\<exists>ws1 q1 b1 b2 q2 ws2.
      t = ws1 @ q1 @ ''$'' @ b1 @ n @ b2 @ q2 @ ws2
      \<and> (\<forall>c \<in> set ws1. is_space c) \<and> (\<forall>c \<in> set ws2. is_space c)
      \<and> set q1 \<subseteq> set quote_chars \<and> set q2 \<subseteq> set quote_chars
      \<and> set b1 \<subseteq> set brace_chars \<and> set b2 \<subseteq> set brace_chars
      \<and> (n = [] \<or> (hd n \<notin> set brace_chars \<and> last n \<notin> set brace_chars))
      \<and> (b2 = [] \<and> n \<noteq> [] \<longrightarrow> last n \<notin> set quote_chars)
      \<and> (b2 = [] \<and> q2 = [] \<and> n \<noteq> [] \<longrightarrow> \<not> is_space (last n))"
proof -
  let ?Q = "\<lambda>c. c \<in> set quote_chars" and ?B = "\<lambda>c. c \<in> set brace_chars"
  define s1 where "s1 = strip_by is_space t"
  define s2 where "s2 = strip_by ?Q s1"
  from assms have st: "startswith s2 ''$''" and nn: "n = strip_by ?B (drop 1 s2)"
    by (auto simp: get_var_name_def Let_def strip_def strip_chars_def s1_def s2_def
        split: if_splits)
  from st obtain c where s2: "s2 = CHR ''$'' # c" by (cases s2) (auto simp: startswith_def)
  with nn have n: "n = strip_by ?B c" by simp
  obtain ws1 ws2 where t: "t = ws1 @ s1 @ ws2"
    and ws: "\<forall>c \<in> set ws1. is_space c" "\<forall>c \<in> set ws2. is_space c"
    using strip_by_decomp [of t is_space] s1_def by blast
  obtain q1 q2 where s1: "s1 = q1 @ s2 @ q2"
    and q: "\<forall>c \<in> set q1. ?Q c" "\<forall>c \<in> set q2. ?Q c"
    using strip_by_decomp [of s1 ?Q] s2_def by blast
  obtain b1 b2 where c: "c = b1 @ n @ b2"
    and b: "\<forall>c \<in> set b1. ?B c" "\<forall>c \<in> set b2. ?B c"
    using strip_by_decomp [of c ?B] n by blast
  have e1: "\<not> is_space (last s1)"
    using strip_by_ends [of is_space t] s1 s2 by (auto simp: s1_def)
  have e2: "\<not> ?Q (last s2)"
    using strip_by_ends [of ?Q s1] s2 by (auto simp: s2_def)
  have e3: "n = [] \<or> (\<not> ?B (hd n) \<and> \<not> ?B (last n))"
    using strip_by_ends [of ?B c] n by simp
  have c1: "b2 = [] \<and> n \<noteq> [] \<longrightarrow> last n \<notin> set quote_chars"
    using e2 s2 c by auto
  have c2: "b2 = [] \<and> q2 = [] \<and> n \<noteq> [] \<longrightarrow> \<not> is_space (last n)"
    using e1 s1 s2 c by auto
  have t': "t = ws1 @ q1 @ ''$'' @ b1 @ n @ b2 @ q2 @ ws2"
    using t s1 s2 c by simp
  have q': "set q1 \<subseteq> set quote_chars" "set q2 \<subseteq> set quote_chars"
    using q by auto
  have b': "set b1 \<subseteq> set brace_chars" "set b2 \<subseteq> set brace_chars"
    using b by auto
  show ?thesis
    by (rule exI [of _ ws1], rule exI [of _ q1], rule exI [of _ b1], rule exI [of _ b2],
        rule exI [of _ q2], rule exI [of _ ws2])
      (intro conjI t' ws q' b' e3 c1 c2)
qed

text \<open>
  Claim C9, as the code has it.  \<open>get_var_name\<close> removes the surrounding whitespace, then
  \<^emph>\<open>every\<close> leading and trailing quote character, fails with a \<open>YamlSyntaxError\<close> that
  names the token unless the first remaining character is \<open>$\<close>, then removes that \<open>$\<close> and
  \<^emph>\<open>every\<close> leading and trailing brace, and returns what is left.  So, for every token
  \<open>t\<close> and every name \<open>n\<close>, it returns \<open>n\<close> exactly when \<open>t\<close> reads: whitespace, quotes, \<open>$\<close>,
  braces, \<open>n\<close>, braces, quotes, whitespace, where \<open>n\<close> neither begins nor ends with a brace,
  the last character of \<open>n\<close> is no quote when no closing brace follows it, and no whitespace
  when neither a closing brace nor a closing quote follows it.  No layer of quotes around
  the \<open>$\<close> and no layer of braces around the name is retained; what a later strip uncovers
  (a blank inside the quotes, a quote or a blank inside the braces) stays in the name.  It
  succeeds exactly when the first character after the leading whitespace and the leading
  quotes is \<open>$\<close>, and its only error is the \<open>YamlSyntaxError\<close> naming the token.
\<close>

theorem get_var_name_strips_every_layer:
  "(get_var_name t = Inr n \<longleftrightarrow>
      (\<exists>ws1 q1 b1 b2 q2 ws2.
         t = ws1 @ q1 @ ''$'' @ b1 @ n @ b2 @ q2 @ ws2
         \<and> (\<forall>c \<in> set ws1. is_space c) \<and> (\<forall>c \<in> set ws2. is_space c)
         \<and> set q1 \<subseteq> set quote_chars \<and> set q2 \<subseteq> set quote_chars
         \<and> set b1 \<subseteq> set brace_chars \<and> set b2 \<subseteq> set brace_chars
         \<and> (n = [] \<or> (hd n \<notin> set brace_chars \<and> last n \<notin> set brace_chars))
         \<and> (b2 = [] \<and> n \<noteq> [] \<longrightarrow> last n \<notin> set quote_chars)
         \<and> (b2 = [] \<and> q2 = [] \<and> n \<noteq> [] \<longrightarrow> \<not> is_space (last n))))
   \<and> ((\<exists>m. get_var_name t = Inr m) \<longleftrightarrow>
        startswith (dropWhile (\<lambda>c. c \<in> set quote_chars) (dropWhile is_space t)) ''$'')
   \<and> (\<forall>e. get_var_name t = Inl e \<longrightarrow>
          e = YamlSyntaxError (''Not a proper variable name: '' @ t))"
proof (intro conjI)
  show "get_var_name t = Inr n \<longleftrightarrow>
      (\<exists>ws1 q1 b1 b2 q2 ws2.
         t = ws1 @ q1 @ ''$'' @ b1 @ n @ b2 @ q2 @ ws2
         \<and> (\<forall>c \<in> set ws1. is_space c) \<and> (\<forall>c \<in> set ws2. is_space c)
         \<and> set q1 \<subseteq> set quote_chars \<and> set q2 \<subseteq> set quote_chars
         \<and> set b1 \<subseteq> set brace_chars \<and> set b2 \<subseteq> set brace_chars
         \<and> (n = [] \<or> (hd n \<notin> set brace_chars \<and> last n \<notin> set brace_chars))
         \<and> (b2 = [] \<and> n \<noteq> [] \<longrightarrow> last n \<notin> set quote_chars)
         \<and> (b2 = [] \<and> q2 = [] \<and> n \<noteq> [] \<longrightarrow> \<not> is_space (last n)))"
  proof (rule iffI)
    assume "get_var_name t = Inr n"
    then show "\<exists>ws1 q1 b1 b2 q2 ws2.
         t = ws1 @ q1 @ ''$'' @ b1 @ n @ b2 @ q2 @ ws2
         \<and> (\<forall>c \<in> set ws1. is_space c) \<and> (\<forall>c \<in> set ws2. is_space c)
         \<and> set q1 \<subseteq> set quote_chars \<and> set q2 \<subseteq> set quote_chars
         \<and> set b1 \<subseteq> set brace_chars \<and> set b2 \<subseteq> set brace_chars
         \<and> (n = [] \<or> (hd n \<notin> set brace_chars \<and> last n \<notin> set brace_chars))
         \<and> (b2 = [] \<and> n \<noteq> [] \<longrightarrow> last n \<notin> set quote_chars)
         \<and> (b2 = [] \<and> q2 = [] \<and> n \<noteq> [] \<longrightarrow> \<not> is_space (last n))"
      by (rule get_var_name_shape_exists)
  next
    assume "\<exists>ws1 q1 b1 b2 q2 ws2.
         t = ws1 @ q1 @ ''$'' @ b1 @ n @ b2 @ q2 @ ws2
         \<and> (\<forall>c \<in> set ws1. is_space c) \<and> (\<forall>c \<in> set ws2. is_space c)
         \<and> set q1 \<subseteq> set quote_chars \<and> set q2 \<subseteq> set quote_chars
         \<and> set b1 \<subseteq> set brace_chars \<and> set b2 \<subseteq> set brace_chars
         \<and> (n = [] \<or> (hd n \<notin> set brace_chars \<and> last n \<notin> set brace_chars))
         \<and> (b2 = [] \<and> n \<noteq> [] \<longrightarrow> last n \<notin> set quote_chars)
         \<and> (b2 = [] \<and> q2 = [] \<and> n \<noteq> [] \<longrightarrow> \<not> is_space (last n))"
    then show "get_var_name t = Inr n"
      by (elim exE conjE) (simp only: get_var_name_shape)
  qed
  show "(\<exists>m. get_var_name t = Inr m) \<longleftrightarrow>
        startswith (dropWhile (\<lambda>c. c \<in> set quote_chars) (dropWhile is_space t)) ''$''"
    by (rule get_var_name_succeeds_iff)
  show "\<forall>e. get_var_name t = Inl e \<longrightarrow>
          e = YamlSyntaxError (''Not a proper variable name: '' @ t)"
    using get_var_name_error by blast
qed


theorem get_var_name_strips_every_layer_witness:
  "get_var_name ''${x }'' = Inr ''x ''
   \<and> get_var_name [CHR ''$'', CHR ''{'', CHR 0x22, CHR ''x'', CHR 0x22, CHR ''}'']
       = Inr [CHR 0x22, CHR ''x'', CHR 0x22]
   \<and> get_var_name ([CHR 0x22, CHR 0x27] @ '' ${{x}} '' @ [CHR 0x22]) 
       = Inl (YamlSyntaxError (''Not a proper variable name: '' @ [CHR 0x22, CHR 0x27] @ '' ${{x}} '' @ [CHR 0x22]))
   \<and> get_var_name ('' '' @ [CHR 0x22, CHR 0x27] @ ''${{x}}'' @ [CHR 0x22] @ ''  '') = Inr ''x''"
proof -
  have 1: "\<exists>ws1 q1 b1 b2 q2 ws2.
         ''${x }'' = ws1 @ q1 @ ''$'' @ b1 @ ''x '' @ b2 @ q2 @ ws2
         \<and> (\<forall>c \<in> set ws1. is_space c) \<and> (\<forall>c \<in> set ws2. is_space c)
         \<and> set q1 \<subseteq> set quote_chars \<and> set q2 \<subseteq> set quote_chars
         \<and> set b1 \<subseteq> set brace_chars \<and> set b2 \<subseteq> set brace_chars
         \<and> (''x '' = [] \<or> (hd ''x '' \<notin> set brace_chars \<and> last ''x '' \<notin> set brace_chars))
         \<and> (b2 = [] \<and> ''x '' \<noteq> [] \<longrightarrow> last ''x '' \<notin> set quote_chars)
         \<and> (b2 = [] \<and> q2 = [] \<and> ''x '' \<noteq> [] \<longrightarrow> \<not> is_space (last ''x ''))"
    by (rule exI [of _ "[]"], rule exI [of _ "[]"], rule exI [of _ "''{''"],
        rule exI [of _ "''}''"], rule exI [of _ "[]"], rule exI [of _ "[]"])
      (simp add: brace_chars_def)
  have 2: "\<exists>ws1 q1 b1 b2 q2 ws2.
         [CHR ''$'', CHR ''{'', CHR 0x22, CHR ''x'', CHR 0x22, CHR ''}'']
           = ws1 @ q1 @ ''$'' @ b1 @ [CHR 0x22, CHR ''x'', CHR 0x22] @ b2 @ q2 @ ws2
         \<and> (\<forall>c \<in> set ws1. is_space c) \<and> (\<forall>c \<in> set ws2. is_space c)
         \<and> set q1 \<subseteq> set quote_chars \<and> set q2 \<subseteq> set quote_chars
         \<and> set b1 \<subseteq> set brace_chars \<and> set b2 \<subseteq> set brace_chars
         \<and> ([CHR 0x22, CHR ''x'', CHR 0x22] = []
              \<or> (hd [CHR 0x22, CHR ''x'', CHR 0x22] \<notin> set brace_chars
                  \<and> last [CHR 0x22, CHR ''x'', CHR 0x22] \<notin> set brace_chars))
         \<and> (b2 = [] \<and> [CHR 0x22, CHR ''x'', CHR 0x22] \<noteq> []
              \<longrightarrow> last [CHR 0x22, CHR ''x'', CHR 0x22] \<notin> set quote_chars)
         \<and> (b2 = [] \<and> q2 = [] \<and> [CHR 0x22, CHR ''x'', CHR 0x22] \<noteq> []
              \<longrightarrow> \<not> is_space (last [CHR 0x22, CHR ''x'', CHR 0x22]))"
    by (rule exI [of _ "[]"], rule exI [of _ "[]"], rule exI [of _ "''{''"],
        rule exI [of _ "''}''"], rule exI [of _ "[]"], rule exI [of _ "[]"])
      (simp add: brace_chars_def)
  have 3: "\<exists>ws1 q1 b1 b2 q2 ws2.
         '' '' @ [CHR 0x22, CHR 0x27] @ ''${{x}}'' @ [CHR 0x22] @ ''  ''
           = ws1 @ q1 @ ''$'' @ b1 @ ''x'' @ b2 @ q2 @ ws2
         \<and> (\<forall>c \<in> set ws1. is_space c) \<and> (\<forall>c \<in> set ws2. is_space c)
         \<and> set q1 \<subseteq> set quote_chars \<and> set q2 \<subseteq> set quote_chars
         \<and> set b1 \<subseteq> set brace_chars \<and> set b2 \<subseteq> set brace_chars
         \<and> (''x'' = [] \<or> (hd ''x'' \<notin> set brace_chars \<and> last ''x'' \<notin> set brace_chars))
         \<and> (b2 = [] \<and> ''x'' \<noteq> [] \<longrightarrow> last ''x'' \<notin> set quote_chars)
         \<and> (b2 = [] \<and> q2 = [] \<and> ''x'' \<noteq> [] \<longrightarrow> \<not> is_space (last ''x''))"
    by (rule exI [of _ "'' ''"], rule exI [of _ "[CHR 0x22, CHR 0x27]"], rule exI [of _ "''{{''"],
        rule exI [of _ "''}}''"], rule exI [of _ "[CHR 0x22]"], rule exI [of _ "''  ''"])
      (simp add: brace_chars_def quote_chars_def is_space_def)
  let ?bad = "[CHR 0x22, CHR 0x27] @ '' ${{x}} '' @ [CHR 0x22]"
  have 4: "\<not> startswith (dropWhile (\<lambda>c. c \<in> set quote_chars) (dropWhile is_space ?bad)) ''$''"
    by (simp add: startswith_def quote_chars_def is_space_def)
  note a = get_var_name_strips_every_layer [of "''${x }''" "''x ''", THEN conjunct1, THEN iffD2, OF 1]
  note b = get_var_name_strips_every_layer
    [of "[CHR ''$'', CHR ''{'', CHR 0x22, CHR ''x'', CHR 0x22, CHR ''}'']"
      "[CHR 0x22, CHR ''x'', CHR 0x22]", THEN conjunct1, THEN iffD2, OF 2]
  note c = get_var_name_strips_every_layer
    [of "'' '' @ [CHR 0x22, CHR 0x27] @ ''${{x}}'' @ [CHR 0x22] @ ''  ''" "''x''",
      THEN conjunct1, THEN iffD2, OF 3]
  note t = get_var_name_strips_every_layer [of ?bad "[]", THEN conjunct2]
  from t [THEN conjunct1] 4 have n: "\<not> (\<exists>m. get_var_name ?bad = Inr m)" by blast
  note e = t [THEN conjunct2]
  from n obtain e' where "get_var_name ?bad = Inl e'" by (cases "get_var_name ?bad") auto
  with e have d: "get_var_name ?bad = Inl (YamlSyntaxError (''Not a proper variable name: '' @ ?bad))"
    by simp
  show ?thesis using a b c d by simp
qed


text \<open>C9 as stated fails: two brace layers are both removed, none is retained.\<close>

theorem get_var_name_one_layer_counterexample:
  "get_var_name ''${{x}}'' = Inr ''x'' \<and> get_var_name ''${{x}}'' \<noteq> Inr ''{x}''"
  by (simp add: get_var_name_def strip_def strip_chars_def strip_by_def startswith_def
      is_space_def quote_chars_def brace_chars_def)

section \<open>Unfolding the text primitives and the pattern on concrete inputs\<close>

lemmas text_defs = strip_def strip_chars_def strip_by_def startswith_def is_space_def
  quote_chars_def brace_chars_def

lemmas regex_defs = re_match_def groups_def for_regex_def var_token_def lit_def seqs_def

section \<open>Properties of the Expression Evaluator\<close>

lemma strip_dollar_bare:
  assumes "bare_ident n"
  shows "strip (''$'' @ n) = ''$'' @ n"
proof -
  have "\<not> is_space (last (''$'' @ n))"
    using assms by (cases "n = []") (auto simp: bare_ident_def dollar_not_space)
  then have "strip_by is_space ([] @ (''$'' @ n) @ []) = ''$'' @ n"
    by (intro strip_by_sandwich) (simp_all add: dollar_not_space)
  then show ?thesis by (simp add: strip_def)
qed

lemma get_var_name_dollar_bare:
  assumes "bare_ident n"
  shows "get_var_name (''$'' @ n) = Inr n"
  using get_var_name_layers[of "[]" "[]" "[]" "[]" "[]" "[]" n] assms by simp

lemma evaluate_dollar:
  assumes "bare_name n"
  shows "evaluate run (VStr (''$'' @ n)) E w =
           (Inr (case E n of
                   Some v \<Rightarrow> if truthy v then (True, v) else (False, VStr [])
                 | None \<Rightarrow> (False, VStr [])), w)"
proof -
  from assms have b: "bare_ident n" and p: "n = [] \<or> hd n \<noteq> CHR ''(''"
    by (simp_all add: bare_name_def)
  have s: "strip (CHR ''$'' # n) = CHR ''$'' # n" using strip_dollar_bare[OF b] by simp
  have g: "get_var_name (CHR ''$'' # n) = Inr n" using get_var_name_dollar_bare[OF b] by simp
  have np: "\<not> startswith (CHR ''$'' # n) ''$(''"
    using p by (cases n) (auto simp: startswith_def)
  show ?thesis
    using np by (simp add: evaluate_def s g Let_def startswith_def split: option.splits)
qed

text \<open>
  Claim C1, for bare names.  For every environment \<open>E\<close> and every bare name \<open>n\<close>,
  \<open>evaluate("$" + n, E)\<close> returns (true, \<open>E[n]\<close>) exactly when \<open>n\<close> is a key of \<open>E\<close> bound to
  a truthy value, and (false, the empty text) in every other case; the world is not touched.
\<close>

theorem evaluate_variable:
  assumes "bare_name n"
  shows "(\<forall>v. evaluate run (VStr (''$'' @ n)) E w = (Inr (True, v), w)
              \<longleftrightarrow> E n = Some v \<and> truthy v)
       \<and> ((\<nexists>v. E n = Some v \<and> truthy v)
            \<longrightarrow> evaluate run (VStr (''$'' @ n)) E w = (Inr (False, VStr []), w))"
  unfolding evaluate_dollar[OF assms] by (auto split: option.splits)

theorem evaluate_variable_witness:
  "bare_name ''foo''
   \<and> evaluate echo_runner (VStr ''$foo'') [''foo'' \<mapsto> VStr ''bar''] () = (Inr (True, VStr ''bar''), ())
   \<and> evaluate echo_runner (VStr ''$foo'') [''foo'' \<mapsto> VInt 0] () = (Inr (False, VStr []), ())
   \<and> evaluate echo_runner (VStr ''$foo'') Map.empty () = (Inr (False, VStr []), ())"
proof -
  have b: "bare_name ''foo''"
    by (simp add: bare_name_def bare_ident_def brace_chars_def quote_chars_def is_space_def)
  show ?thesis
    using b evaluate_variable[OF b, of echo_runner "[''foo'' \<mapsto> VStr ''bar'']" "()"]
      evaluate_variable[OF b, of echo_runner "[''foo'' \<mapsto> VInt 0]" "()"]
      evaluate_variable[OF b, of echo_runner "Map.empty" "()"]
    by simp
qed

text \<open>C1 as stated, for every name, fails: the name \<open>{x}\<close> is not a key of the
  environment, yet \<open>${x}\<close> is the variable \<open>x\<close> and evaluates to its value.\<close>

theorem evaluate_variable_counterexample:
  "''{x}'' \<notin> dom [''x'' \<mapsto> VStr ''v'']
   \<and> evaluate echo_runner (VStr (''$'' @ ''{x}'')) [''x'' \<mapsto> VStr ''v''] ()
       = (Inr (True, VStr ''v''), ())"
  by (simp add: evaluate_def get_var_name_def strip_def strip_chars_def strip_by_def
      startswith_def is_space_def quote_chars_def brace_chars_def)

lemma strip_by_prefix:
  assumes "a \<noteq> []" "\<not> P (hd a)" "\<not> P (last a)"
  shows "strip_by P (a @ r) = a @ rev (dropWhile P (rev r))"
proof -
  have 1: "dropWhile P (a @ r) = a @ r"
    using assms(1,2) by (cases a) simp_all
  have 2: "dropWhile P (rev a) = rev a"
    using assms(1,3) by (intro dropWhile_stop) (simp add: hd_rev)
  have "dropWhile P (rev r @ rev a) = dropWhile P (rev r) @ rev a"
  proof (cases "\<forall>x \<in> set (rev r). P x")
    case True
    then have "dropWhile P (rev r @ rev a) = dropWhile P (rev a)" by (rule dropWhile_all)
    moreover from True have "dropWhile P (rev r) = []" by simp
    ultimately show ?thesis using 2 by simp
  next
    case False
    then show ?thesis by (auto simp: dropWhile_append1)
  qed
  then show ?thesis using 1 by (simp add: strip_by_def)
qed

lemma strip_not_prefix:
  assumes "X \<noteq> []" "\<not> is_space (hd X)"
  shows "strip (''not '' @ X) = ''not '' @ strip X"
proof -
  have x: "dropWhile is_space X = X" using assms by (cases X) simp_all
  have "\<exists>c \<in> set (rev X). \<not> is_space c" using assms by (cases X) auto
  then have "dropWhile is_space (rev X @ rev ''not '') = dropWhile is_space (rev X) @ rev ''not ''"
    by (auto simp: dropWhile_append1)
  then have "strip_by is_space (''not '' @ X) = ''not '' @ rev (dropWhile is_space (rev X))"
    by (simp add: strip_by_def is_space_def)
  then show ?thesis by (simp add: strip_def strip_by_def x)
qed

lemma strip_is_prefix:
  assumes "X = [] \<or> \<not> is_space (hd X)"
  shows "\<exists>wsp. X = strip X @ wsp"
proof -
  have x: "dropWhile is_space X = X" using assms by (cases X) simp_all
  from rstrip_decomp[of is_space X] show ?thesis by (auto simp: strip_def strip_by_def x)
qed

lemma startswith_prefix: "startswith x p \<Longrightarrow> startswith (x @ y) p"
  by (auto simp: startswith_def) (metis append_eq_append_conv_if append_take_drop_id take_all_iff le_cases take_append)

lemma evaluate_not_once:
  assumes "X = [] \<or> \<not> is_space (hd X)" and "\<not> startswith X ''not ''"
    and "evaluate run (VStr X) E w = (Inr (l, v), w')"
  shows "evaluate run (VStr (''not '' @ X)) E w = (Inr (\<not> l, v), w')"
proof -
  have ne: "X \<noteq> []"
  proof
    assume "X = []"
    then have "evaluate run (VStr X) E w = (Inl (YamlSyntaxError ''Not a valid expression: ''), w)"
      by (simp add: evaluate_def text_defs)
    with assms(3) show False by simp
  qed
  with assms(1) have h: "\<not> is_space (hd X)" by simp
  define X' where "X' = strip X"
  have s: "strip (''not '' @ X) = ''not '' @ X'"
    unfolding X'_def using ne h by (rule strip_not_prefix)
  obtain wsp where "X = X' @ wsp" using strip_is_prefix[OF assms(1)] X'_def by auto
  with assms(2) have nn: "\<not> startswith X' ''not ''" using startswith_prefix by metis
  have a: "evaluate run (VStr X) E w =
      (if startswith X' ''$('' then
                (case run (drop 2 (butlast X')) E w of
                   (Inr output, w') \<Rightarrow> (Inr (True, output), w')
                 | (Inl output, w') \<Rightarrow> (Inr (False, output), w'))
              else if startswith X' ''$'' \<or> startswith X' [CHR 0x22, CHR ''$''] then
                (case get_var_name X' of
                   Inl e \<Rightarrow> (Inl e, w)
                 | Inr var_name \<Rightarrow>
                     (case E var_name of
                        Some v \<Rightarrow> if truthy v then (Inr (True, v), w) else (Inr (False, (VStr [])), w)
                      | None \<Rightarrow> (Inr (False, (VStr [])), w)))
              else if startswith X' ''defined '' then
                (case get_var_name (drop 8 X') of
                   Inl e \<Rightarrow> (Inl e, w)
                 | Inr varname \<Rightarrow>
                     (Inr ((varname \<in> dom E),
                          (case E varname of Some v \<Rightarrow> v | None \<Rightarrow> VStr [])), w))
              else (Inl (YamlSyntaxError (''Not a valid expression: '' @ X)), w))"
    using nn by (simp add: evaluate_def Let_def X'_def[symmetric] split: sum.splits)
  have b: "evaluate run (VStr (''not '' @ X)) E w =
      (if startswith X' ''$('' then
                (case run (drop 2 (butlast X')) E w of
                   (Inr output, w') \<Rightarrow> (Inr (False, output), w')
                 | (Inl output, w') \<Rightarrow> (Inr (True, output), w'))
              else if startswith X' ''$'' \<or> startswith X' [CHR 0x22, CHR ''$''] then
                (case get_var_name X' of
                   Inl e \<Rightarrow> (Inl e, w)
                 | Inr var_name \<Rightarrow>
                     (case E var_name of
                        Some v \<Rightarrow> if truthy v then (Inr (False, v), w) else (Inr (True, (VStr [])), w)
                      | None \<Rightarrow> (Inr (True, (VStr [])), w)))
              else if startswith X' ''defined '' then
                (case get_var_name (drop 8 X') of
                   Inl e \<Rightarrow> (Inl e, w)
                 | Inr varname \<Rightarrow>
                     (Inr ((varname \<notin> dom E),
                          (case E varname of Some v \<Rightarrow> v | None \<Rightarrow> VStr [])), w))
              else (Inl (YamlSyntaxError (''Not a valid expression: not '' @ X)), w))"
    unfolding evaluate_def pyval.case Let_def s
    by (simp add: startswith_def split: sum.splits prod.splits option.splits)
  show ?thesis
    using assms(3) unfolding a b
    by (auto split: if_splits sum.splits option.splits prod.splits)
qed


lemma evaluate_not_not:
  "evaluate run (VStr (''not not '' @ Y)) E w =
     (Inl (YamlSyntaxError (''Not a valid expression: not not '' @ Y)), w)"
proof -
  have "strip_by is_space (''not not'' @ ('' '' @ Y)) =
      ''not not'' @ rev (dropWhile is_space (rev ('' '' @ Y)))"
    by (rule strip_by_prefix) (simp_all add: is_space_def)
  then obtain Z where s: "strip (''not not '' @ Y) = ''not not'' @ Z"
    by (simp add: strip_def)
  show ?thesis
    unfolding evaluate_def pyval.case Let_def s by (simp add: startswith_def)
qed

text \<open>
  Claim C6, for the expressions where a leading \<open>not \<close> is an inversion.  Let \<open>X\<close> be a text
  with no leading whitespace that does not itself begin with \<open>not \<close>.  Whenever
  \<open>evaluate(X, E)\<close> returns (logical, value), \<open>evaluate("not " + X, E)\<close> returns the negated
  logical result and the same value, and leaves the world in the same state.  One leading
  \<open>not \<close> only is an inversion: every expression that begins with \<open>not not \<close> is refused
  with a \<open>YamlSyntaxError\<close>.
\<close>

theorem evaluate_not:
  "((X = [] \<or> \<not> is_space (hd X)) \<and> \<not> startswith X ''not ''
      \<and> evaluate run (VStr X) E w = (Inr (l, v), w')
     \<longrightarrow> evaluate run (VStr (''not '' @ X)) E w = (Inr (\<not> l, v), w'))
   \<and> evaluate run (VStr (''not not '' @ Y)) E w =
       (Inl (YamlSyntaxError (''Not a valid expression: not not '' @ Y)), w)"
  using evaluate_not_once [of X run E w l v w'] evaluate_not_not [of run Y E w] by blast

theorem evaluate_not_witness:
  "evaluate echo_runner (VStr ''$x'') [''x'' \<mapsto> VStr ''v''] () = (Inr (True, VStr ''v''), ())
   \<and> evaluate echo_runner (VStr (''not '' @ ''$x'')) [''x'' \<mapsto> VStr ''v''] ()
       = (Inr (False, VStr ''v''), ())"
proof -
  have e: "evaluate echo_runner (VStr ''$x'') [''x'' \<mapsto> VStr ''v''] () = (Inr (True, VStr ''v''), ())"
    by (simp add: evaluate_def get_var_name_def text_defs)
  have h: "''$x'' = [] \<or> \<not> is_space (hd ''$x'')" "\<not> startswith ''$x'' ''not ''"
    by (simp_all add: text_defs)
  show ?thesis
    using e h evaluate_not [of "''$x''" echo_runner "[''x'' \<mapsto> VStr ''v'']" "()" True "VStr ''v''" "()"]
    by simp
qed

text \<open>C6 as stated, for every text \<open>X\<close>, fails: \<open>not $x\<close> evaluates, but \<open>not not $x\<close> is
  refused; and \<open> $x\<close> (with a leading blank) evaluates, but \<open>not  $x\<close> is refused.\<close>

theorem evaluate_not_counterexample:
  "evaluate echo_runner (VStr ''not $x'') [''x'' \<mapsto> VStr ''v''] () = (Inr (False, VStr ''v''), ())
   \<and> evaluate echo_runner (VStr (''not '' @ ''not $x'')) [''x'' \<mapsto> VStr ''v''] ()
       = (Inl (YamlSyntaxError ''Not a valid expression: not not $x''), ())
   \<and> evaluate echo_runner (VStr '' $x'') [''x'' \<mapsto> VStr ''v''] () = (Inr (True, VStr ''v''), ())
   \<and> evaluate echo_runner (VStr (''not '' @ '' $x'')) [''x'' \<mapsto> VStr ''v''] ()
       = (Inl (YamlSyntaxError ''Not a valid expression: not  $x''), ())"
  by (simp add: evaluate_def get_var_name_def text_defs)

lemma split_on_from_no_sep:
  "sep \<notin> set s \<Longrightarrow> split_on_from sep piece s = [piece @ s]"
  by (induction s arbitrary: piece) auto

lemma split_on_from_sep:
  "sep \<notin> set s \<Longrightarrow> split_on_from sep piece (s @ sep # r) = (piece @ s) # split_on_from sep [] r"
  by (induction s arbitrary: piece) auto

lemma split_targets:
  assumes "CHR '','' \<notin> set a" "CHR '','' \<notin> set b"
  shows "split_on CHR '','' (''$'' @ a @ '',$'' @ b) = [''$'' @ a, ''$'' @ b]"
    and "count_list (''$'' @ a @ '',$'' @ b) CHR '','' = 1"
proof -
  have "split_on_from CHR '','' [] ((''$'' @ a) @ CHR '','' # (''$'' @ b))
          = ([] @ (''$'' @ a)) # split_on_from CHR '','' [] (''$'' @ b)"
    using assms(1) by (intro split_on_from_sep) simp
  moreover have "split_on_from CHR '','' [] (''$'' @ b) = [[] @ (''$'' @ b)]"
    using assms(2) by (intro split_on_from_no_sep) simp
  ultimately show "split_on CHR '','' (''$'' @ a @ '',$'' @ b) = [''$'' @ a, ''$'' @ b]"
    by (simp add: split_on_def)
  show "count_list (''$'' @ a @ '',$'' @ b) CHR '','' = 1"
    using assms by (simp add: count_list_0_iff)
qed

text \<open>
  Claim C5, as the code has it.  The targets are written with \<open>$\<close>: \<open>$a,$b\<close>, for any two
  distinct target names \<open>a\<close> and \<open>b\<close>.  Whenever \<open>X\<close> evaluates to (logical, value), the
  assignment succeeds and binds \<open>a\<close> to the logical result and \<open>b\<close> to the value.  After
  it, \<open>$a\<close> evaluates with the logical result of \<open>X\<close> as its logical result, and \<open>$b\<close>
  evaluates to exactly the value of \<open>X\<close> whenever that value is truthy or the empty text.
\<close>

theorem assign_then_evaluate:
  assumes "target_name a" "target_name b" "a \<noteq> b"
    and "evaluate run X E w = (Inr (l, v), w')"
  shows "assign_variable run (''$'' @ a @ '',$'' @ b) X E w
           = (Inr (), E(a \<mapsto> VBool l, b \<mapsto> v), w')
    \<and> (\<forall>w2. \<exists>r. evaluate run (VStr (''$'' @ a)) (E(a \<mapsto> VBool l, b \<mapsto> v)) w2
                  = (Inr (l, r), w2))
    \<and> (truthy v \<or> v = VStr [] \<longrightarrow>
         (\<forall>w2. evaluate run (VStr (''$'' @ b)) (E(a \<mapsto> VBool l, b \<mapsto> v)) w2
                  = (Inr (truthy v, v), w2)))"
proof -
  from assms(1,2) have ba: "bare_name a" and bb: "bare_name b"
    and ca: "CHR '','' \<notin> set a" and cb: "CHR '','' \<notin> set b"
    by (simp_all add: target_name_def)
  from ba bb have ia: "bare_ident a" and ib: "bare_ident b" by (simp_all add: bare_name_def)
  have g: "map get_var_name (split_on CHR '','' (''$'' @ a @ '',$'' @ b)) = [Inr a, Inr b]"
    unfolding split_targets(1) [OF ca cb]
    using get_var_name_dollar_bare [OF ia] get_var_name_dollar_bare [OF ib] by simp
  have 1: "assign_variable run (''$'' @ a @ '',$'' @ b) X E w
             = (Inr (), E(a \<mapsto> VBool l, b \<mapsto> v), w')"
    unfolding assign_variable_def Let_def g split_targets(2) [OF ca cb]
    using assms(4) by simp
  show ?thesis
    using 1 assms(3) evaluate_dollar [OF ba, of run "E(a \<mapsto> VBool l, b \<mapsto> v)"]
      evaluate_dollar [OF bb, of run "E(a \<mapsto> VBool l, b \<mapsto> v)"]
    by auto
qed

theorem assign_then_evaluate_witness:
  "target_name ''a'' \<and> target_name ''b''
   \<and> assign_variable echo_runner ''$a,$b'' (VStr ''not $(ls)'') Map.empty ()
     = (Inr (), [''a'' \<mapsto> VBool False, ''b'' \<mapsto> VStr ''ls''], ())
   \<and> fst (evaluate echo_runner (VStr ''$a'') [''a'' \<mapsto> VBool False, ''b'' \<mapsto> VStr ''ls''] ())
       = Inr (False, VStr [])
   \<and> evaluate echo_runner (VStr ''$b'') [''a'' \<mapsto> VBool False, ''b'' \<mapsto> VStr ''ls''] ()
       = (Inr (True, VStr ''ls''), ())"
proof -
  have t: "target_name ''a''" "target_name ''b''"
    by (simp_all add: target_name_def bare_name_def bare_ident_def brace_chars_def
        quote_chars_def is_space_def)
  have n: "''a'' \<noteq> ''b''" by simp
  have e: "evaluate echo_runner (VStr ''not $(ls)'') Map.empty () = (Inr (False, VStr ''ls''), ())"
    by (simp add: evaluate_def text_defs echo_runner_def)
  have a: "fst (evaluate echo_runner (VStr ''$a'') [''a'' \<mapsto> VBool False, ''b'' \<mapsto> VStr ''ls''] ())
       = Inr (False, VStr [])"
    by (simp add: evaluate_def text_defs get_var_name_def)
  show ?thesis using t a assign_then_evaluate [OF t n e] by simp
qed

text \<open>C5 as stated fails: the target list \<open>a,b\<close> is refused, since a target must begin
  with \<open>$\<close>; nothing is bound, and \<open>$a\<close> evaluates falsy although \<open>X\<close> evaluates truthy.\<close>

theorem assign_then_evaluate_counterexample:
  "evaluate echo_runner (VStr ''$(ls)'') Map.empty () = (Inr (True, VStr ''ls''), ())
   \<and> assign_variable echo_runner ''a,b'' (VStr ''$(ls)'') Map.empty ()
       = (Inl (YamlSyntaxError ''Not a proper variable name: a''), Map.empty, ())
   \<and> evaluate echo_runner (VStr ''$a'') Map.empty () = (Inr (False, VStr []), ())
   \<and> evaluate echo_runner (VStr ''$b'') Map.empty () = (Inr (False, VStr []), ())"
  by (simp add: assign_variable_def split_on_def evaluate_def get_var_name_def text_defs
      echo_runner_def)


section \<open>Properties of the Condition Resolver\<close>

text \<open>
  Claim C8.  Let \<open>skip\<close> hold iff a next section exists and its keyword is exactly \<open>else\<close>.
  When the stripped if-condition evaluates to a logical result, the resolver returns
  (0, \<open>skip\<close>, if-body) if that result is true; (1, true, else-body) if it is false and the
  next section is an else-section; and (1, false, \<open>None\<close>) if it is false and \<open>skip\<close> is
  false.
\<close>

theorem get_section_from_condition_result:
  assumes "evaluate run (VStr (strip (drop 2 if_header))) kwargs w = (Inr (logical, v), w')"
    and "skip \<longleftrightarrow> (\<exists>body. else_section = Some (''else'', body))"
  shows "(logical \<longrightarrow>
           get_section_from_condition run (if_header, if_body) else_section kwargs w =
             (Inr (0, skip, Some if_body), w'))
       \<and> (\<not> logical \<longrightarrow>
           (\<forall>else_body. else_section = Some (''else'', else_body) \<longrightarrow>
              get_section_from_condition run (if_header, if_body) else_section kwargs w =
                (Inr (1, True, Some else_body), w'))
         \<and> (\<not> skip \<longrightarrow>
              get_section_from_condition run (if_header, if_body) else_section kwargs w =
                (Inr (1, False, None), w')))"
  using assms by (cases else_section) (auto simp: get_section_from_condition_def)

theorem get_section_from_condition_result_witness:
  "get_section_from_condition echo_runner (''if $foo'', 10 :: nat) (Some (''else'', 20))
       [''foo'' \<mapsto> VStr ''yes''] () = (Inr (0, True, Some 10), ())
   \<and> get_section_from_condition echo_runner (''if $foo'', 10 :: nat) (Some (''else'', 20))
       Map.empty () = (Inr (1, True, Some 20), ())
   \<and> get_section_from_condition echo_runner (''if $foo'', 10 :: nat) None
       Map.empty () = (Inr (1, False, None), ())"
proof -
  have s: "strip (drop 2 ''if $foo'') = ''$foo''" by (simp add: text_defs)
  have t: "evaluate echo_runner (VStr (strip (drop 2 ''if $foo''))) [''foo'' \<mapsto> VStr ''yes''] ()
      = (Inr (True, VStr ''yes''), ())"
    unfolding s by (simp add: evaluate_def text_defs get_var_name_def)
  have f: "evaluate echo_runner (VStr (strip (drop 2 ''if $foo''))) Map.empty ()
      = (Inr (False, VStr []), ())"
    unfolding s by (simp add: evaluate_def text_defs get_var_name_def)
  show ?thesis
    using get_section_from_condition_result [OF t, of True "Some (''else'', 20)" 10]
      get_section_from_condition_result [OF f, of True "Some (''else'', 20)" 10]
      get_section_from_condition_result [OF f, of False None 10]
    by simp
qed

section \<open>Properties of the Assignment Executor\<close>

text \<open>
  Claim C10.  When the target list holds more than one comma, \<open>assign_variable\<close> raises
  its \<open>YamlSyntaxError\<close> and leaves both the environment and the world as they were: the
  right-hand side is not evaluated and the collaborator is not called, whatever it is.
\<close>

theorem assign_variable_too_many_commas:
  assumes "count_list variable CHR '','' > 1"
  shows "assign_variable run variable comm kwargs w =
           (Inl (YamlSyntaxError ''Max two variables allowed on left side.''), kwargs, w)"
  using assms by (simp add: assign_variable_def)

theorem assign_variable_too_many_commas_witness:
  "count_list ''$a,$b,$c'' CHR '','' > 1
   \<and> assign_variable echo_runner ''$a,$b,$c'' (VStr ''$(rm -rf x)'') [''a'' \<mapsto> VInt 1] () =
       (Inl (YamlSyntaxError ''Max two variables allowed on left side.''), [''a'' \<mapsto> VInt 1], ())"
proof -
  have c: "count_list ''$a,$b,$c'' CHR '','' > 1" by simp
  show ?thesis
    using c assign_variable_too_many_commas [OF c, of echo_runner "VStr ''$(rm -rf x)''" "[''a'' \<mapsto> VInt 1]" "()"]
    by simp
qed

section \<open>Properties of the Loop Header Parser and the Loop Iterable Resolver\<close>

lemma split_from_concat:
  "concat (split_from tok s) = tok @ filter (\<lambda>c. \<not> is_space c) s"
  by (induction s arbitrary: tok) simp_all

lemma split_from_tokens:
  "(\<forall>c \<in> set tok. \<not> is_space c) \<Longrightarrow> t \<in> set (split_from tok s)
     \<Longrightarrow> t \<noteq> [] \<and> (\<forall>c \<in> set t. \<not> is_space c)"
proof (induction s arbitrary: tok)
  case Nil
  then show ?case by (auto split: if_splits)
next
  case (Cons a s)
  show ?case
  proof (cases "is_space a")
    case True
    with Cons.prems(2) consider "tok \<noteq> []" "t = tok" | "t \<in> set (split_from [] s)"
      by (auto split: if_splits)
    then show ?thesis
    proof cases
      case 1
      with Cons.prems(1) show ?thesis by simp
    next
      case 2
      with Cons.IH [of "[]"] show ?thesis by simp
    qed
  next
    case False
    with Cons.prems(2) have "t \<in> set (split_from (tok @ [a]) s)" by simp
    moreover from False Cons.prems(1) have "\<forall>c \<in> set (tok @ [a]). \<not> is_space c" by simp
    ultimately show ?thesis by (rule Cons.IH [rotated])
  qed
qed

lemma parse_for_control_vars:
  "parse_for h = Inr (cvs, e) \<Longrightarrow> length cvs = 1 \<or> length cvs = 2"
  by (auto simp: parse_for_def Let_def split: option.splits if_splits sum.splits)

lemma split_from_run:
  "\<forall>c \<in> set t. \<not> is_space c \<Longrightarrow> split_from tok (t @ r) = split_from (tok @ t) r"
  by (induction t arbitrary: tok) simp_all

lemma split_ws_laws:
  "split_ws [] = []"
  "is_space c \<Longrightarrow> split_ws (c # s) = split_ws s"
  "t \<noteq> [] \<Longrightarrow> \<forall>c \<in> set t. \<not> is_space c \<Longrightarrow> split_ws t = [t]"
  "t \<noteq> [] \<Longrightarrow> \<forall>c \<in> set t. \<not> is_space c \<Longrightarrow> is_space d
     \<Longrightarrow> split_ws (t @ d # s) = t # split_ws s"
proof -
  show "split_ws [] = []" by (simp add: split_ws_def)
  show "is_space c \<Longrightarrow> split_ws (c # s) = split_ws s" by (simp add: split_ws_def)
  show "split_ws t = [t]" if "t \<noteq> []" "\<forall>c \<in> set t. \<not> is_space c"
    using that split_from_run [of t "[]" "[]"] by (simp add: split_ws_def)
  show "split_ws (t @ d # s) = t # split_ws s"
    if "t \<noteq> []" "\<forall>c \<in> set t. \<not> is_space c" "is_space d"
    using that split_from_run [of t "[]" "d # s"] by (simp add: split_ws_def)
qed


text \<open>
  The conversion step of the resolver, on a header that \<open>parse_for\<close> accepts and whose
  expression evaluates.  The resolver looks at the value only.  There are one or two control
  variables.  With two, a mapping gives its (key, value) pairs in iteration order, and any
  other value fails with a \<open>YamlSyntaxError\<close> naming the type of the value.  With one, a text
  gives its tokens (\<open>split_ws\<close>, the maximal runs free of whitespace, by the four laws
  above), and any other value gives the empty iterable.
\<close>

lemma resolver_converts_by_shape:
  assumes "parse_for header = Inr (control_vars, expression)"
    and "evaluate run (VStr expression) kwargs w = (Inr (logical, val), w')"
  shows "(length control_vars = 1 \<or> length control_vars = 2)
    \<and> (length control_vars = 2 \<longrightarrow>
          (\<forall>kvs. val = VDict kvs \<longrightarrow>
             get_for_control_var_and_eval_expr run header kwargs w =
               (Inr (control_vars, map (\<lambda>(k, v). KeyVal k v) kvs), w'))
        \<and> (val = VNone \<longrightarrow>
             get_for_control_var_and_eval_expr run header kwargs w =
               (Inl (YamlSyntaxError
                  ''Can't expand <class 'NoneType'> to two control variables.''), w'))
        \<and> (\<forall>b. val = VBool b \<longrightarrow>
             get_for_control_var_and_eval_expr run header kwargs w =
               (Inl (YamlSyntaxError
                  ''Can't expand <class 'bool'> to two control variables.''), w'))
        \<and> (\<forall>i. val = VInt i \<longrightarrow>
             get_for_control_var_and_eval_expr run header kwargs w =
               (Inl (YamlSyntaxError
                  ''Can't expand <class 'int'> to two control variables.''), w'))
        \<and> (\<forall>s. val = VStr s \<longrightarrow>
             get_for_control_var_and_eval_expr run header kwargs w =
               (Inl (YamlSyntaxError
                  ''Can't expand <class 'str'> to two control variables.''), w'))
        \<and> (\<forall>xs. val = VList xs \<longrightarrow>
             get_for_control_var_and_eval_expr run header kwargs w =
               (Inl (YamlSyntaxError
                  ''Can't expand <class 'list'> to two control variables.''), w')))
    \<and> (length control_vars = 1 \<longrightarrow>
          (\<forall>s. val = VStr s \<longrightarrow>
             get_for_control_var_and_eval_expr run header kwargs w =
               (Inr (control_vars, map Token (split_ws s)), w'))
        \<and> ((\<nexists>s. val = VStr s) \<longrightarrow>
             get_for_control_var_and_eval_expr run header kwargs w =
               (Inr (control_vars, []), w')))"
proof -
  have len: "length control_vars = 1 \<or> length control_vars = 2"
    using assms(1) by (rule parse_for_control_vars)
  have r: "get_for_control_var_and_eval_expr run header kwargs w =
      (if length control_vars = 2 then
         (case val of
            VDict kvs \<Rightarrow> (Inr (control_vars, map (\<lambda>(k, v). KeyVal k v) kvs), w')
          | _ \<Rightarrow> (Inl (YamlSyntaxError (''Can't expand '' @ type_repr val
                                          @ '' to two control variables.'')), w'))
       else
         (case val of
            VStr s \<Rightarrow> (Inr (control_vars, map Token (split_ws s)), w')
          | _ \<Rightarrow> (Inr (control_vars, []), w')))"
    by (simp add: get_for_control_var_and_eval_expr_def assms)
  show ?thesis
    unfolding r using len by (cases val) auto
qed

text \<open>
  Claim C7 does not hold of the code.  A header whose control variable has a name of more
  than one character is refused by the pattern of \<open>parse_for\<close>, and the resolver raises the
  \<open>AttributeError\<close> of \<open>None.groups()\<close> whatever the environment holds: nothing is
  converted.
\<close>

theorem resolver_long_name:
  "get_for_control_var_and_eval_expr run ''for $item in $list'' kwargs w
     = (Inl (AttributeError ''NoneType object has no attribute groups''), w)
   \<and> get_for_control_var_and_eval_expr run ''for $key, $val in $map'' kwargs w
     = (Inl (AttributeError ''NoneType object has no attribute groups''), w)"
proof -
  have 1: "parse_for ''for $item in $list''
      = Inl (AttributeError ''NoneType object has no attribute groups'')"
    by (simp add: parse_for_def regex_defs text_defs get_var_name_def)
  have 2: "parse_for ''for $key, $val in $map''
      = Inl (AttributeError ''NoneType object has no attribute groups'')"
    by (simp add: parse_for_def regex_defs text_defs get_var_name_def)
  show ?thesis by (simp add: get_for_control_var_and_eval_expr_def 1 2)
qed

text \<open>
  Claim C4 does not hold of the code.  The expression \<open>foo\<close> of the header below is no
  valid expression, \<open>evaluate\<close> raises a \<open>YamlSyntaxError\<close>, and the handler of the resolver
  raises \<open>NameError\<close> at \<open>logger.log(e)\<close> instead of raising the error again.
\<close>

theorem resolver_logger_undefined:
  "get_for_control_var_and_eval_expr run ''for $i in foo'' kwargs w =
     (Inl (NameError ''name 'logger' is not defined''), w)"
proof -
  have p: "parse_for ''for $i in foo'' = Inr ([''i''], ''foo'')"
    by (simp add: parse_for_def regex_defs text_defs get_var_name_def)
  have e: "evaluate run (VStr ''foo'') kwargs w =
      (Inl (YamlSyntaxError ''Not a valid expression: foo''), w)"
    by (simp add: evaluate_def text_defs)
  show ?thesis
    by (simp add: get_for_control_var_and_eval_expr_def p e)
qed

section \<open>The pattern on well-formed headers\<close>

lemma first_match_iff: "first_match r st = Some x \<longleftrightarrow> (\<exists>xs. matches r st = x # xs)"
  by (auto simp: first_match_def split: list.splits)

lemma first_match_Eps: "first_match Eps st = Some st"
  by (simp add: first_match_def)

lemma first_match_Seq:
  "first_match a st = Some x \<Longrightarrow> first_match b x = Some y \<Longrightarrow> first_match (Seq a b) st = Some y"
  by (auto simp: first_match_iff)

lemma first_match_Opt: "first_match a st = Some x \<Longrightarrow> first_match (Opt a) st = Some x"
  by (auto simp: first_match_iff)

lemma first_match_Opt_fail: "matches a st = [] \<Longrightarrow> first_match (Opt a) st = Some st"
  by (simp add: first_match_def)

lemma first_match_Group:
  "first_match a (g, s) = Some (g', s') \<Longrightarrow>
     first_match (Group n a) (g, s) = Some (g'(n := Some (take (length s - length s') s)), s')"
  by (auto simp: first_match_iff)

lemma first_match_Atom: "in_class k c \<Longrightarrow> first_match (Atom k) (g, c # r) = Some (g, r)"
  by (simp add: first_match_def)

lemma first_match_lit: "first_match (lit s) (g, s @ r) = Some (g, r)"
  by (induction s) (auto simp: lit_def first_match_iff)

lemma star_cc_greedy:
  "\<forall>c \<in> set ws. in_class k c \<Longrightarrow> r = [] \<or> \<not> in_class k (hd r)
     \<Longrightarrow> \<exists>zs. star_cc k (ws @ r) = r # zs"
  by (induction ws) (auto, (cases r; simp)+)

lemma first_match_Star:
  "\<forall>c \<in> set ws. in_class k c \<Longrightarrow> r = [] \<or> \<not> in_class k (hd r)
     \<Longrightarrow> first_match (Star k) (g, ws @ r) = Some (g, r)"
  using star_cc_greedy[of ws k r] by (auto simp: first_match_iff)

lemma first_match_Plus:
  "ws \<noteq> [] \<Longrightarrow> \<forall>c \<in> set ws. in_class k c \<Longrightarrow> r = [] \<or> \<not> in_class k (hd r)
     \<Longrightarrow> first_match (Plus k) (g, ws @ r) = Some (g, r)"
  using star_cc_greedy[of "tl ws" k r] by (cases ws) (auto simp: first_match_iff)

lemma star_cc_results:
  "\<forall>c \<in> set ws. in_class k c \<Longrightarrow> \<not> in_class k d \<Longrightarrow> x \<in> set (star_cc k (ws @ d # r))
     \<Longrightarrow> x \<noteq> [] \<and> (hd x = d \<or> in_class k (hd x))"
  by (induction ws) auto

lemma re_match_first: "first_match r (\<lambda>_. None, s) = Some (g, t) \<Longrightarrow> re_match r s = Some g"
  by (auto simp: first_match_iff re_match_def)


lemma seqs_Nil: "seqs [] = Eps"
  by (simp add: seqs_def)

lemma seqs_Cons: "seqs (r # rs) = Seq r (seqs rs)"
  by (simp add: seqs_def)

lemma var_token_first:
  assumes "ident_char c" "t \<in> set (var_forms c)" "r \<noteq> []" "hd r \<noteq> CHR ''}''"
  shows "first_match (var_token n) (g, t @ r) = Some (g(n := Some t), r)"
proof -
  from assms(1) have c: "\<not> is_space c" "c \<noteq> CHR ''{''"
    by (auto simp: ident_char_def brace_chars_def)
  from assms(3,4) obtain d r' where r: "r = d # r'" "d \<noteq> CHR ''}''" by (cases r) auto
  from assms(2) consider "t = [CHR ''$'', c]" | "t = [CHR ''$'', CHR ''{'', c, CHR ''}'']"
    by (auto simp: var_forms_def)
  then show ?thesis
  proof cases
    case 1
    then show ?thesis using c r by (simp add: first_match_def var_token_def seqs_def)
  next
    case 2
    then show ?thesis using c r by (simp add: first_match_def var_token_def seqs_def)
  qed
qed

lemma expr_first:
  assumes "expr_text e"
  shows "first_match (Group 3 (seqs [Atom NonSpace, Plus AnyChar])) (g, e) = Some (g(3 := Some e), [])"
proof -
  from assms obtain a e' where e: "e = a # e'" "e' \<noteq> []" "\<not> is_space a" "\<forall>c \<in> set e'. in_class AnyChar c"
    by (cases e; cases "tl e") (auto simp: expr_text_def)
  have 1: "first_match (Atom NonSpace) (g, a # e') = Some (g, e')"
    using e(3) by (intro first_match_Atom) simp
  have 2: "first_match (Plus AnyChar) (g, e' @ []) = Some (g, [])"
    using e(2,4) by (intro first_match_Plus) simp_all
  have "first_match (seqs [Atom NonSpace, Plus AnyChar]) (g, e) = Some (g, [])"
    unfolding seqs_Cons seqs_Nil e(1)
    using first_match_Seq [OF 1 first_match_Seq [OF _ first_match_Eps]] 2 by simp
  from first_match_Group [OF this, of 3] show ?thesis by simp
qed

lemma in_expr_first:
  assumes "blank w2" "blank w3" "expr_text e"
  shows "first_match (seqs [Plus Space, lit ''in'', Plus Space,
                            Group 3 (seqs [Atom NonSpace, Plus AnyChar])])
           (g, w2 @ ''in'' @ w3 @ e) = Some (g(3 := Some e), [])"
proof -
  have he: "e = [] \<or> \<not> in_class Space (hd e)" using assms(3) by (simp add: expr_text_def)
  have 1: "first_match (Plus Space) (g, w2 @ (''in'' @ w3 @ e)) = Some (g, ''in'' @ w3 @ e)"
    using assms(1) by (intro first_match_Plus) (simp_all add: blank_def is_space_def)
  have 2: "first_match (lit ''in'') (g, ''in'' @ (w3 @ e)) = Some (g, w3 @ e)"
    by (rule first_match_lit)
  have 3: "first_match (Plus Space) (g, w3 @ e) = Some (g, e)"
    using assms(2) he by (intro first_match_Plus) (simp_all add: blank_def)
  note 4 = expr_first [OF assms(3), of g, unfolded seqs_Cons seqs_Nil]
  show ?thesis
    unfolding seqs_Cons seqs_Nil
    by (intro first_match_Seq [OF 1] first_match_Seq [OF 2] first_match_Seq [OF 3]
        first_match_Seq [OF 4] first_match_Eps)
qed

lemma second_var_fails:
  assumes "\<forall>c \<in> set w2. is_space c"
  shows "matches (seqs [Star Space, Atom (Chr CHR '',''), Plus Space, var_token 2])
           (g, w2 @ ''in'' @ r) = []"
proof -
  have "matches (Atom (Chr CHR '','')) (g, x) = []"
    if "x \<in> set (star_cc Space (w2 @ CHR ''i'' # (''n'' @ r)))" for x
  proof -
    from star_cc_results [of w2 Space "CHR ''i''" x "''n'' @ r"] assms that
    have "x \<noteq> []" "hd x = CHR ''i'' \<or> is_space (hd x)" by (simp_all add: is_space_def)
    then show ?thesis by (cases x) (auto simp: is_space_def)
  qed
  then show ?thesis by (simp add: seqs_def)
qed

lemma second_var_first:
  assumes "\<forall>c \<in> set w0. is_space c" "blank w4" "ident_char c" "t \<in> set (var_forms c)"
    "r \<noteq> []" "hd r \<noteq> CHR ''}''"
  shows "first_match (seqs [Star Space, Atom (Chr CHR '',''), Plus Space, var_token 2])
           (g, w0 @ '','' @ w4 @ t @ r) = Some (g(2 := Some t), r)"
proof -
  have ht: "\<not> is_space (hd (t @ r))" using assms(4) by (auto simp: var_forms_def is_space_def)
  have 1: "first_match (Star Space) (g, w0 @ ('','' @ w4 @ t @ r)) = Some (g, '','' @ w4 @ t @ r)"
    using assms(1) by (intro first_match_Star) (simp_all add: is_space_def)
  have 2: "first_match (Atom (Chr CHR '','')) (g, CHR '','' # (w4 @ t @ r)) = Some (g, w4 @ t @ r)"
    by (intro first_match_Atom) simp
  have 3: "first_match (Plus Space) (g, w4 @ (t @ r)) = Some (g, t @ r)"
    using assms(2) ht by (intro first_match_Plus) (simp_all add: blank_def)
  note 4 = var_token_first [OF assms(3,4,5,6), of 2 g]
  have c2: "first_match (Atom (Chr CHR '','')) (g, '','' @ w4 @ t @ r) = Some (g, w4 @ t @ r)"
    using 2 by simp
  show ?thesis
    unfolding seqs_Cons seqs_Nil
    by (intro first_match_Seq [OF 1] first_match_Seq [OF c2] first_match_Seq [OF 3]
        first_match_Seq [OF 4] first_match_Eps)
qed


lemma for_regex_unfold:
  "for_regex =
     Seq (lit ''for'') (Seq (Plus Space) (Seq (var_token 1)
       (Seq (Opt (seqs [Star Space, Atom (Chr CHR '',''), Plus Space, var_token 2]))
            (seqs [Plus Space, lit ''in'', Plus Space,
                   Group 3 (seqs [Atom NonSpace, Plus AnyChar])]))))"
  by (simp add: for_regex_def seqs_def)

lemma var_form_head: "t \<in> set (var_forms c) \<Longrightarrow> \<not> is_space (hd (t @ r))"
  by (auto simp: var_forms_def is_space_def)

lemma blank_head: "blank ws \<Longrightarrow> ws @ r \<noteq> [] \<and> hd (ws @ r) \<noteq> CHR ''}''"
  by (cases ws) (auto simp: blank_def is_space_def)

lemma for_one_var:
  assumes "blank w1" "blank w2" "blank w3" "ident_char c" "t \<in> set (var_forms c)" "expr_text e"
  shows "re_match for_regex (''for'' @ w1 @ t @ w2 @ ''in'' @ w3 @ e)
           = Some ((\<lambda>_. None)(1 := Some t, 3 := Some e))"
proof -
  let ?g = "\<lambda>_::nat. None :: string option"
  let ?r = "w2 @ ''in'' @ w3 @ e"
  have 1: "first_match (lit ''for'') (?g, ''for'' @ (w1 @ t @ ?r)) = Some (?g, w1 @ t @ ?r)"
    by (rule first_match_lit)
  have 2: "first_match (Plus Space) (?g, w1 @ (t @ ?r)) = Some (?g, t @ ?r)"
    using assms(1) var_form_head [OF assms(5), of ?r]
    by (intro first_match_Plus) (simp_all add: blank_def)
  have 3: "first_match (var_token 1) (?g, t @ ?r) = Some (?g(1 := Some t), ?r)"
    using blank_head [OF assms(2), of "''in'' @ w3 @ e"]
    by (intro var_token_first [OF assms(4,5)]) simp_all
  have 4: "first_match (Opt (seqs [Star Space, Atom (Chr CHR '',''), Plus Space, var_token 2]))
             (?g(1 := Some t), w2 @ ''in'' @ (w3 @ e)) = Some (?g(1 := Some t), w2 @ ''in'' @ (w3 @ e))"
    using assms(2) by (intro first_match_Opt_fail second_var_fails) (simp add: blank_def)
  note 5 = in_expr_first [OF assms(2,3,6), of "?g(1 := Some t)"]
  have "first_match for_regex (?g, ''for'' @ w1 @ t @ ?r) = Some (?g(1 := Some t, 3 := Some e), [])"
    unfolding for_regex_unfold
    using first_match_Seq [OF 1 first_match_Seq [OF 2 first_match_Seq [OF 3
            first_match_Seq [OF _ 5]]]] 4
    by simp
  then show ?thesis by (rule re_match_first)
qed

lemma for_two_vars:
  assumes "blank w1" "\<forall>c \<in> set w0. is_space c" "blank w4" "blank w2" "blank w3"
    "ident_char k" "tk \<in> set (var_forms k)" "ident_char c" "t \<in> set (var_forms c)"
    "expr_text e"
  shows "re_match for_regex (''for'' @ w1 @ tk @ w0 @ '','' @ w4 @ t @ w2 @ ''in'' @ w3 @ e)
           = Some ((\<lambda>_. None)(1 := Some tk, 2 := Some t, 3 := Some e))"
proof -
  let ?g = "\<lambda>_::nat. None :: string option"
  let ?r = "w2 @ ''in'' @ w3 @ e"
  let ?s = "w0 @ '','' @ w4 @ t @ ?r"
  have 1: "first_match (lit ''for'') (?g, ''for'' @ (w1 @ tk @ ?s)) = Some (?g, w1 @ tk @ ?s)"
    by (rule first_match_lit)
  have 2: "first_match (Plus Space) (?g, w1 @ (tk @ ?s)) = Some (?g, tk @ ?s)"
    using assms(1) var_form_head [OF assms(7), of ?s]
    by (intro first_match_Plus) (simp_all add: blank_def)
  have hs: "?s \<noteq> [] \<and> hd ?s \<noteq> CHR ''}''"
    using assms(2) by (cases w0) (auto simp: is_space_def)
  have 3: "first_match (var_token 1) (?g, tk @ ?s) = Some (?g(1 := Some tk), ?s)"
    using hs by (intro var_token_first [OF assms(6,7)]) simp_all
  have 4: "first_match (seqs [Star Space, Atom (Chr CHR '',''), Plus Space, var_token 2])
             (?g(1 := Some tk), ?s) = Some (?g(1 := Some tk, 2 := Some t), ?r)"
    using blank_head [OF assms(4), of "''in'' @ w3 @ e"]
    by (intro second_var_first [OF assms(2,3,8,9)]) simp_all
  note 5 = in_expr_first [OF assms(4,5,10), of "?g(1 := Some tk, 2 := Some t)"]
  have "first_match for_regex (?g, ''for'' @ w1 @ tk @ ?s)
          = Some (?g(1 := Some tk, 2 := Some t, 3 := Some e), [])"
    unfolding for_regex_unfold
    using first_match_Seq [OF 1 first_match_Seq [OF 2 first_match_Seq [OF 3
            first_match_Seq [OF first_match_Opt [OF 4] 5]]]]
    by simp
  then show ?thesis by (rule re_match_first)
qed

lemma get_var_name_form:
  assumes "ident_char c" "t \<in> set (var_forms c)"
  shows "get_var_name t = Inr [c]" "t \<noteq> []"
proof -
  have b: "bare_ident [c]" using assms(1) by (simp add: bare_ident_def ident_char_def)
  from assms(2) consider "t = [] @ [] @ ''$'' @ [] @ [c] @ [] @ [] @ []"
    | "t = [] @ [] @ ''$'' @ ''{'' @ [c] @ ''}'' @ [] @ []"
    by (auto simp: var_forms_def)
  then show "get_var_name t = Inr [c]"
  proof cases
    case 1
    show ?thesis unfolding 1 using b by (intro get_var_name_layers) simp_all
  next
    case 2
    show ?thesis unfolding 2 using b
      by (intro get_var_name_layers) (simp_all add: brace_chars_def)
  qed
  show "t \<noteq> []" using assms(2) by (auto simp: var_forms_def)
qed

text \<open>The headers with one-character names that the pattern does accept: the names and
  the expression text come back, the expression verbatim.\<close>

lemma parse_for_one_var:
  assumes "blank w1" "blank w2" "blank w3" "ident_char c" "t \<in> set (var_forms c)" "expr_text e"
  shows "parse_for (''for'' @ w1 @ t @ w2 @ ''in'' @ w3 @ e) = Inr ([[c]], e)"
  unfolding parse_for_def Let_def for_one_var [OF assms]
  using get_var_name_form [OF assms(4,5)] by (simp add: groups_def)

lemma parse_for_two_vars:
  assumes "blank w1" "\<forall>c \<in> set w0. is_space c" "blank w4" "blank w2" "blank w3"
    "ident_char k" "tk \<in> set (var_forms k)" "ident_char c" "t \<in> set (var_forms c)"
    "expr_text e"
  shows "parse_for (''for'' @ w1 @ tk @ w0 @ '','' @ w4 @ t @ w2 @ ''in'' @ w3 @ e)
           = Inr ([[k], [c]], e)"
  unfolding parse_for_def Let_def for_two_vars [OF assms]
  using get_var_name_form [OF assms(6,7)] get_var_name_form [OF assms(8,9)]
  by (simp add: groups_def)


text \<open>
  Claim C3 does not hold of the code.  The pattern takes one character for the name of a
  control variable (\<open>\S\<close>, not \<open>\S+\<close>), although the message of the code itself shows
  \<open>for $var in expression\<close>: a header with a longer name does not match, and \<open>parse_for\<close>
  raises the \<open>AttributeError\<close> of \<open>None.groups()\<close>.  For the header of the docstring,
  \<open>for ${i} in $(ls $foo)\<close>, the expression comes back as \<open>$(ls $foo)\<close>, where the docstring
  says \<open>ls $foo\<close>.
\<close>

theorem parse_for_long_name:
  "parse_for ''for $var in $foo'' = Inl (AttributeError ''NoneType object has no attribute groups'')
   \<and> parse_for ''for $key, $val in $foo''
       = Inl (AttributeError ''NoneType object has no attribute groups'')
   \<and> parse_for ''for ${item} in $(ls $foo)''
       = Inl (AttributeError ''NoneType object has no attribute groups'')
   \<and> parse_for ''for ${i} in $(ls $foo)'' = Inr ([''i''], ''$(ls $foo)'')"
  by (simp add: parse_for_def regex_defs text_defs get_var_name_def)

section \<open>The errors of the Loop Header Parser\<close>

lemma matches_Seq_iff:
  "x \<in> set (matches (Seq a b) st) \<longleftrightarrow> (\<exists>y \<in> set (matches a st). x \<in> set (matches b y))"
  by simp

lemma matches_Eps_iff: "x \<in> set (matches Eps st) \<longleftrightarrow> x = st"
  by simp

lemma matches_Atom_caps: "x \<in> set (matches (Atom k) (g, s)) \<Longrightarrow> fst x = g"
  by (auto split: list.splits if_splits)

lemma matches_Star_caps: "x \<in> set (matches (Star k) (g, s)) \<Longrightarrow> fst x = g"
  by auto

lemma matches_Plus_caps: "x \<in> set (matches (Plus k) (g, s)) \<Longrightarrow> fst x = g"
  by auto

lemma matches_lit_caps: "x \<in> set (matches (lit t) (g, s)) \<Longrightarrow> fst x = g"
proof (induction t arbitrary: s)
  case Nil
  then show ?case by (simp add: lit_def)
next
  case (Cons c t)
  from Cons.prems obtain s' where "x \<in> set (matches (lit t) (g, s'))"
    by (auto simp: lit_def split: list.splits if_splits)
  then show ?case by (rule Cons.IH)
qed

lemma var_token_caps:
  assumes "x \<in> set (matches (var_token n) (g, s))"
  shows "\<exists>t. fst x = g(n := Some (CHR ''$'' # t))"
proof -
  from assms obtain g' s' where x: "x = (g'(n := Some (take (length s - length s') s)), s')"
    and m: "(g', s') \<in> set (matches (seqs [Atom (Chr CHR ''$''), Opt (Atom (Chr CHR ''{'')),
                Atom NonSpace, Opt (Atom (Chr CHR ''}''))]) (g, s))"
    by (auto simp: var_token_def)
  from m obtain r where s: "s = CHR ''$'' # r"
    by (cases s) (auto simp: seqs_def split: if_splits)
  from m s have g: "g' = g" and l: "length s' \<le> length r"
    by (auto simp: seqs_def split: list.splits if_splits)
  from s l have "take (length s - length s') s = CHR ''$'' # take (length r - length s') r"
    by (simp add: Suc_diff_le)
  with x g show ?thesis by auto
qed


lemma second_var_caps:
  assumes "x \<in> set (matches (seqs [Star Space, Atom (Chr CHR '',''), Plus Space, var_token 2])
                      (g, s))"
  shows "\<exists>t. fst x = g(2 := Some (CHR ''$'' # t))"
proof -
  from assms obtain y1 y2 y3 where
    1: "y1 \<in> set (matches (Star Space) (g, s))" and
    2: "y2 \<in> set (matches (Atom (Chr CHR '','')) y1)" and
    3: "y3 \<in> set (matches (Plus Space) y2)" and
    4: "x \<in> set (matches (var_token 2) y3)"
    unfolding seqs_Cons seqs_Nil matches_Seq_iff matches_Eps_iff by blast
  from 1 have "fst y1 = g" by (rule matches_Star_caps)
  with 2 have "fst y2 = g" by (cases y1) (auto dest: matches_Atom_caps)
  with 3 have "fst y3 = g" by (cases y2) (auto dest: matches_Plus_caps)
  with 4 show ?thesis by (cases y3) (auto dest: var_token_caps)
qed

lemma in_expr_caps:
  assumes "x \<in> set (matches (seqs [Plus Space, lit ''in'', Plus Space,
                                   Group 3 (seqs [Atom NonSpace, Plus AnyChar])]) (g, s))"
  shows "\<exists>e. fst x = g(3 := Some e)"
proof -
  from assms obtain y1 y2 y3 where
    1: "y1 \<in> set (matches (Plus Space) (g, s))" and
    2: "y2 \<in> set (matches (lit ''in'') y1)" and
    3: "y3 \<in> set (matches (Plus Space) y2)" and
    4: "x \<in> set (matches (Group 3 (Seq (Atom NonSpace) (Seq (Plus AnyChar) Eps))) y3)"
    unfolding seqs_Cons seqs_Nil matches_Seq_iff matches_Eps_iff by blast
  from 1 have "fst y1 = g" by (rule matches_Plus_caps)
  with 2 have "fst y2 = g" by (cases y1) (auto dest: matches_lit_caps)
  with 3 have g3: "fst y3 = g" by (cases y2) (auto dest: matches_Plus_caps)
  obtain s3 where y3: "y3 = (g, s3)" using g3 by (cases y3) auto
  from 4 obtain g' s' where x: "x = (g'(3 := Some (take (length s3 - length s') s3)), s')"
    and m: "(g', s') \<in> set (matches (Seq (Atom NonSpace) (Seq (Plus AnyChar) Eps)) (g, s3))"
    unfolding y3 by auto
  from m obtain z1 z2 where z1: "z1 \<in> set (matches (Atom NonSpace) (g, s3))"
    and z2: "z2 \<in> set (matches (Plus AnyChar) z1)" and z3: "(g', s') = z2"
    unfolding matches_Seq_iff matches_Eps_iff by blast
  from z1 have "fst z1 = g" by (rule matches_Atom_caps)
  with z2 have "fst z2 = g" by (cases z1) (auto dest: matches_Plus_caps)
  with z3 have "g' = g" by auto
  with x show ?thesis by auto
qed

lemma for_regex_caps:
  assumes "x \<in> set (matches for_regex (g, s))"
  shows "\<exists>t1 e. fst x 1 = Some (CHR ''$'' # t1) \<and> fst x 3 = Some e
           \<and> (fst x 2 = g 2 \<or> (\<exists>t2. fst x 2 = Some (CHR ''$'' # t2)))"
proof -
  let ?sv = "seqs [Star Space, Atom (Chr CHR '',''), Plus Space, var_token 2]"
  from assms obtain y1 y2 y3 y4 where
    1: "y1 \<in> set (matches (lit ''for'') (g, s))" and
    2: "y2 \<in> set (matches (Plus Space) y1)" and
    3: "y3 \<in> set (matches (var_token 1) y2)" and
    4: "y4 \<in> set (matches (Opt ?sv) y3)" and
    5: "x \<in> set (matches (seqs [Plus Space, lit ''in'', Plus Space,
                                 Group 3 (seqs [Atom NonSpace, Plus AnyChar])]) y4)"
    unfolding for_regex_unfold matches_Seq_iff by blast
  from 1 have "fst y1 = g" by (rule matches_lit_caps)
  with 2 have "fst y2 = g" by (cases y1) (auto dest: matches_Plus_caps)
  with 3 obtain t1 where g3: "fst y3 = g(1 := Some (CHR ''$'' # t1))"
    by (cases y2) (auto dest: var_token_caps)
  from 4 have "y4 = y3 \<or> y4 \<in> set (matches ?sv y3)" by auto
  then have g4: "fst y4 = fst y3 \<or> (\<exists>t2. fst y4 = (fst y3)(2 := Some (CHR ''$'' # t2)))"
    by (cases y3) (auto dest: second_var_caps)
  from 5 obtain e where "fst x = (fst y4)(3 := Some e)"
    by (cases y4) (auto dest: in_expr_caps)
  with g3 g4 show ?thesis by auto
qed

lemma get_var_name_dollar: "\<exists>n. get_var_name (CHR ''$'' # t) = Inr n"
  unfolding get_var_name_succeeds_iff
  by (simp add: startswith_def dollar_not_space quote_chars_def)

lemma parse_for_no_syntax_error: "parse_for h \<noteq> Inl (YamlSyntaxError m)"
proof (cases "re_match for_regex h")
  case None
  then show ?thesis by (simp add: parse_for_def)
next
  case (Some g)
  then obtain s' xs where "matches for_regex (\<lambda>_. None, h) = (g, s') # xs"
    by (auto simp: re_match_def split: list.splits)
  then have "(g, s') \<in> set (matches for_regex (\<lambda>_. None, h))" by simp
  from for_regex_caps [OF this] obtain t1 e where
    g: "g 1 = Some (CHR ''$'' # t1)" "g 3 = Some e"
      "g 2 = None \<or> (\<exists>t2. g 2 = Some (CHR ''$'' # t2))"
    by auto
  obtain n1 where n1: "get_var_name (CHR ''$'' # t1) = Inr n1"
    using get_var_name_dollar by blast
  have r: "groups 3 g = [g 1, g 2, g 3]"
    by (simp add: groups_def upt_rec numeral_2_eq_2 numeral_3_eq_3)
  from g(1) have g1: "g (Suc 0) = Some (CHR ''$'' # t1)" by simp
  from g(3) show ?thesis
  proof
    assume "g 2 = None"
    then show ?thesis by (simp add: parse_for_def Some r g g1 n1)
  next
    assume "\<exists>t2. g 2 = Some (CHR ''$'' # t2)"
    then obtain t2 where t2: "g 2 = Some (CHR ''$'' # t2)" by blast
    obtain n2 where "get_var_name (CHR ''$'' # t2) = Inr n2"
      using get_var_name_dollar by blast
    then show ?thesis by (simp add: parse_for_def Some r g g1 t2 n1)
  qed
qed

text \<open>
  Claim C2 does not hold of the code.  On a header without \<open>in\<close> the pattern does not
  match, \<open>regex.match\<close> returns \<open>None\<close> and \<open>None.groups()\<close> raises \<open>AttributeError\<close>.  The
  \<open>YamlSyntaxError\<close> prepared in \<open>error\<close> is never raised, on any header.
\<close>

theorem parse_for_unmatched_header:
  "parse_for ''for $i $foo'' = Inl (AttributeError ''NoneType object has no attribute groups'')
   \<and> (\<forall>h m. parse_for h \<noteq> Inl (YamlSyntaxError m))"
proof -
  have "parse_for ''for $i $foo''
          = Inl (AttributeError ''NoneType object has no attribute groups'')"
    by (simp add: parse_for_def regex_defs text_defs get_var_name_def)
  then show ?thesis using parse_for_no_syntax_error by blast
qed

end
